theory Spec2Isabelle
  imports Complex_Main "HOL-Library.Word" "HOL-Library.Sublist"
begin

section \<open>Strings\<close>

text \<open>
  A JavaScript string is a sequence of 16-bit code units. String literals of the source
  are written \<open>js ''...''\<close>: every character of the literals used here is ASCII and so
  is one code unit.
\<close>

type_synonym jschar = "16 word"
type_synonym jsstring = "jschar list"

definition js :: "string \<Rightarrow> jsstring" where
  "js s = map of_char s"

text \<open>\<^verbatim>\<open>\w\<close> without the unicode or ignore-case flag: \<^verbatim>\<open>[A-Za-z0-9_]\<close>.\<close>

definition isWordChar :: "jschar \<Rightarrow> bool" where
  "isWordChar c \<longleftrightarrow>
     (0x30 \<le> c \<and> c \<le> 0x39) \<or> (0x41 \<le> c \<and> c \<le> 0x5A) \<or> c = 0x5F \<or> (0x61 \<le> c \<and> c \<le> 0x7A)"

text \<open>
  The line terminators of ECMAScript (LF, CR, LS, PS): the characters that \<^verbatim>\<open>.\<close> does not
  match in a regular expression without the \<^verbatim>\<open>s\<close> flag.
\<close>

definition isLineTerminator :: "jschar \<Rightarrow> bool" where
  "isLineTerminator c \<longleftrightarrow> c = 0x0A \<or> c = 0x0D \<or> c = 0x2028 \<or> c = 0x2029"

text \<open>
  What \<^verbatim>\<open>String.prototype.trim\<close> strips: WhiteSpace (TAB, VT, FF, ZWNBSP and the space
  separators) and the line terminators.
\<close>

definition isWhiteSpace :: "jschar \<Rightarrow> bool" where
  "isWhiteSpace c \<longleftrightarrow>
     c = 0x09 \<or> c = 0x0B \<or> c = 0x0C \<or> c = 0x20 \<or> c = 0xA0 \<or> c = 0x1680 \<or>
     (0x2000 \<le> c \<and> c \<le> 0x200A) \<or> c = 0x202F \<or> c = 0x205F \<or> c = 0x3000 \<or> c = 0xFEFF \<or>
     isLineTerminator c"

definition trim :: "jsstring \<Rightarrow> jsstring" where
  "trim s = rev (dropWhile isWhiteSpace (rev (dropWhile isWhiteSpace s)))"

text \<open>\<^verbatim>\<open>s.startsWith(p) ? s.slice(p.length) : undefined\<close>: the rest of \<open>s\<close> after the literal \<open>p\<close>.\<close>

fun stripPrefix :: "'a list \<Rightarrow> 'a list \<Rightarrow> 'a list option" where
  "stripPrefix [] s = Some s"
| "stripPrefix (p # ps) [] = None"
| "stripPrefix (p # ps) (c # cs) = (if p = c then stripPrefix ps cs else None)"

text \<open>\<^verbatim>\<open>String.prototype.includes\<close>.\<close>

fun includesStr :: "jsstring \<Rightarrow> jsstring \<Rightarrow> bool" where
  "includesStr [] p = (p = [])"
| "includesStr (c # cs) p = (stripPrefix p (c # cs) \<noteq> None \<or> includesStr cs p)"

text \<open>\<^verbatim>\<open>String.prototype.indexOf\<close> of a single character; \<open>None\<close> stands for \<open>-1\<close>.\<close>

definition indexOf :: "jschar \<Rightarrow> jsstring \<Rightarrow> nat option" where
  "indexOf c s = (if c \<in> set s then Some (length (takeWhile (\<lambda>x. x \<noteq> c) s)) else None)"

text \<open>\<^verbatim>\<open>String.prototype.split\<close> on a single character: always at least one segment.\<close>

fun splitStr :: "jschar \<Rightarrow> jsstring \<Rightarrow> jsstring list" where
  "splitStr sep [] = [[]]"
| "splitStr sep (c # cs) =
     (if c = sep then [] # splitStr sep cs
      else (case splitStr sep cs of
              [] \<Rightarrow> [[c]]
            | seg # segs \<Rightarrow> (c # seg) # segs))"

text \<open>
  \<^verbatim>\<open>s.replace(/p/g, '')\<close> for a literal, non-empty pattern \<open>p\<close>: the scan goes from left
  to right and resumes after each match.
\<close>

function replaceAllLit :: "jsstring \<Rightarrow> jsstring \<Rightarrow> jsstring" where
  "replaceAllLit p s =
     (case s of
        [] \<Rightarrow> []
      | c # cs \<Rightarrow>
          (if p \<noteq> [] \<and> stripPrefix p s \<noteq> None then replaceAllLit p (drop (length p) s)
           else c # replaceAllLit p cs))"
  by pat_completeness auto
termination
  by (relation "measure (\<lambda>(p, s). length s)") auto

section \<open>The call codec (\<^verbatim>\<open>useToolCalls\<close>)\<close>

definition START_CALL :: jsstring where
  "START_CALL = js ''<start_function_call>''"

definition END_CALL :: jsstring where
  "END_CALL = js ''<end_function_call>''"

definition ESCAPE :: jsstring where
  "ESCAPE = js ''<escape>''"

definition ESCAPE_CLOSE :: jsstring where
  "ESCAPE_CLOSE = js ''</escape>''"

definition COLON :: jschar where "COLON = 0x3A"
definition COMMA :: jschar where "COMMA = 0x2C"
definition LBRACE :: jschar where "LBRACE = 0x7B"
definition RBRACE :: jschar where "RBRACE = 0x7D"
definition DQUOTE :: jschar where "DQUOTE = 0x22"

record ToolCall =
  name :: jsstring
  parameters :: "jsstring \<rightharpoonup> jsstring"

text \<open>
  \<^verbatim>\<open>/<start_function_call>call:(\w+)\{([^}]*)\}<end_function_call>/\<close> tried at the
  beginning of \<open>s\<close>. Both quantifiers are greedy, and backtracking never helps: a shorter
  \<^verbatim>\<open>\w+\<close> would have to be followed by \<^verbatim>\<open>{\<close>, which is no word character, and a shorter
  \<^verbatim>\<open>[^}]*\<close> by \<^verbatim>\<open>}\<close>. The result holds the two capture groups.
\<close>

definition toolCallRegex_at :: "jsstring \<Rightarrow> (jsstring \<times> jsstring) option" where
  "toolCallRegex_at s =
     (case stripPrefix (START_CALL @ js ''call:'') s of
        None \<Rightarrow> None
      | Some r \<Rightarrow>
          (let functionName = takeWhile isWordChar r;
               r1 = dropWhile isWordChar r
           in if functionName = [] then None
              else (case stripPrefix [LBRACE] r1 of
                      None \<Rightarrow> None
                    | Some r2 \<Rightarrow>
                        (let paramsString = takeWhile (\<lambda>c. c \<noteq> RBRACE) r2;
                             r3 = dropWhile (\<lambda>c. c \<noteq> RBRACE) r2
                         in (case stripPrefix (RBRACE # END_CALL) r3 of
                               None \<Rightarrow> None
                             | Some r4 \<Rightarrow> Some (functionName, paramsString))))))"

text \<open>\<^verbatim>\<open>response.match(toolCallRegex)\<close>: the leftmost position where the expression matches.\<close>

fun toolCallRegex_match :: "jsstring \<Rightarrow> (jsstring \<times> jsstring) option" where
  "toolCallRegex_match [] = toolCallRegex_at []"
| "toolCallRegex_match (c # cs) =
     (case toolCallRegex_at (c # cs) of
        Some m \<Rightarrow> Some m
      | None \<Rightarrow> toolCallRegex_match cs)"

text \<open>
  The \<open>parameters\<close> object starts as \<^verbatim>\<open>{}\<close>; the model keeps its own properties, a finite
  map from keys to values. The assignment \<^verbatim>\<open>parameters[key] = value\<close> creates or overwrites
  the own property \<open>key\<close>, with one exception: \<^verbatim>\<open>__proto__\<close> names the accessor that the
  object inherits from \<^verbatim>\<open>Object.prototype\<close>, and its setter ignores a string, so that
  assignment stores nothing.
\<close>

definition PROTO :: jsstring where
  "PROTO = js ''__proto__''"

definition assignProperty ::
  "(jsstring \<rightharpoonup> jsstring) \<Rightarrow> jsstring \<Rightarrow> jsstring \<Rightarrow> (jsstring \<rightharpoonup> jsstring)" where
  "assignProperty obj key val = (if key = PROTO then obj else obj(key \<mapsto> val))"

text \<open>The body of the \<^verbatim>\<open>for\<close> loop of \<open>parseToolCall\<close>: one segment of the parameter string.\<close>

definition removeEscapeTags :: "jsstring \<Rightarrow> jsstring" where
  "removeEscapeTags v = replaceAllLit ESCAPE_CLOSE (replaceAllLit ESCAPE v)"

definition parsePair :: "(jsstring \<rightharpoonup> jsstring) \<Rightarrow> jsstring \<Rightarrow> (jsstring \<rightharpoonup> jsstring)" where
  "parsePair params pair =
     (case indexOf COLON pair of
        None \<Rightarrow> params
      | Some colonIndex \<Rightarrow>
          (let key = trim (take colonIndex pair);
               val = removeEscapeTags (trim (drop (colonIndex + 1) pair))
           in if key \<noteq> [] then assignProperty params key val else params))"

text \<open>
  What a segment with a colon contributes: the text before its first colon, trimmed, as
  the key, and the text after that colon, trimmed and freed of the escape tags, as the
  value.
\<close>

definition segmentKey :: "jsstring \<Rightarrow> jsstring" where
  "segmentKey pair = trim (takeWhile (\<lambda>c. c \<noteq> COLON) pair)"

definition segmentValue :: "jsstring \<Rightarrow> jsstring" where
  "segmentValue pair = removeEscapeTags (trim (tl (dropWhile (\<lambda>c. c \<noteq> COLON) pair)))"

text \<open>
  The assignments on a list of segments that store a property, in their order: those of
  the segments with a colon whose key is neither empty nor \<^verbatim>\<open>__proto__\<close>.
\<close>

definition assignments :: "jsstring list \<Rightarrow> (jsstring \<times> jsstring) list" where
  "assignments segs =
     map (\<lambda>seg. (segmentKey seg, segmentValue seg))
       (filter (\<lambda>seg. COLON \<in> set seg \<and> segmentKey seg \<noteq> [] \<and> segmentKey seg \<noteq> PROTO) segs)"

text \<open>
  The loop assigns into the \<open>parameters\<close> object segment by segment. An empty parameter
  string is falsy and skips the loop.
\<close>

definition parseParams :: "jsstring \<Rightarrow> (jsstring \<rightharpoonup> jsstring)" where
  "parseParams paramsString =
     (if paramsString \<noteq> [] then foldl parsePair Map.empty (splitStr COMMA paramsString)
      else Map.empty)"

definition parseToolCall :: "jsstring \<Rightarrow> ToolCall option" where
  "parseToolCall response =
     (case toolCallRegex_match response of
        None \<Rightarrow> None
      | Some (functionName, paramsString) \<Rightarrow>
          Some \<lparr>name = functionName, parameters = parseParams paramsString\<rparr>)"

definition hasToolCall :: "jsstring \<Rightarrow> bool" where
  "hasToolCall response = includesStr response START_CALL"

text \<open>
  \<^verbatim>\<open>/<start_function_call>.*?<end_function_call>/g\<close>. After the start marker the lazy
  \<^verbatim>\<open>.*?\<close> stops at the first end marker it can reach; \<^verbatim>\<open>.\<close> matches no line terminator, so
  the attempt fails when one comes first. \<open>lazyEnd\<close> returns the text after the match.
\<close>

fun lazyEnd :: "jsstring \<Rightarrow> jsstring option" where
  "lazyEnd [] = stripPrefix END_CALL []"
| "lazyEnd (c # cs) =
     (case stripPrefix END_CALL (c # cs) of
        Some r \<Rightarrow> Some r
      | None \<Rightarrow> if isLineTerminator c then None else lazyEnd cs)"

definition spanRegex_at :: "jsstring \<Rightarrow> jsstring option" where
  "spanRegex_at s = (case stripPrefix START_CALL s of None \<Rightarrow> None | Some r \<Rightarrow> lazyEnd r)"

text \<open>
  \<^verbatim>\<open>.replace(/.../g, '')\<close> with that expression: every match is removed, and the scan resumes
  after it.
\<close>

lemma stripPrefix_Some_iff: "stripPrefix p s = Some r \<longleftrightarrow> s = p @ r"
  by (induction p s rule: stripPrefix.induct) auto

lemma lazyEnd_length: "lazyEnd s = Some r \<Longrightarrow> length r \<le> length s"
proof (induction s)
  case Nil
  then show ?case by (simp add: stripPrefix_Some_iff)
next
  case (Cons c cs)
  show ?case
  proof (cases "stripPrefix END_CALL (c # cs)")
    case None
    with Cons show ?thesis by (auto split: if_splits)
  next
    case (Some r')
    with Cons.prems have "c # cs = END_CALL @ r" by (simp add: stripPrefix_Some_iff)
    then have "length (c # cs) = length END_CALL + length r" by (metis length_append)
    then show ?thesis by simp
  qed
qed

lemma spanRegex_at_length: "spanRegex_at s = Some r \<Longrightarrow> length r < length s"
proof -
  assume a: "spanRegex_at s = Some r"
  then obtain t where t: "s = START_CALL @ t" "lazyEnd t = Some r"
    by (auto simp: spanRegex_at_def stripPrefix_Some_iff split: option.splits)
  have "length r \<le> length t" using t(2) by (rule lazyEnd_length)
  moreover have "length START_CALL = 21" by (simp add: START_CALL_def js_def)
  ultimately show ?thesis using t(1) by simp
qed

function removeSpans :: "jsstring \<Rightarrow> jsstring" where
  "removeSpans s =
     (case s of
        [] \<Rightarrow> []
      | c # cs \<Rightarrow>
          (case spanRegex_at s of
             Some r \<Rightarrow> removeSpans r
           | None \<Rightarrow> c # removeSpans cs))"
  by pat_completeness auto
termination
  by (relation "measure length") (auto dest: spanRegex_at_length)

definition extractNonToolText :: "jsstring \<Rightarrow> jsstring" where
  "extractNonToolText response = trim (removeSpans response)"

section \<open>Dispatch (\<^verbatim>\<open>executeToolCall\<close>, \<^verbatim>\<open>processResponse\<close>)\<close>

text \<open>
  A value that a JavaScript call throws: an \<^verbatim>\<open>Error\<close> object with its message, or
  anything else.
\<close>

datatype thrown = ErrorObj jsstring | NonError

text \<open>
  The host's callbacks are injected. Each one acts on the host's state \<open>'h\<close> and may
  throw; \<open>executeToolCall\<close> has no \<^verbatim>\<open>try\<close>, so what a callback throws leaves it.
\<close>

record 'h UseToolCallsOptions =
  onThemeChange :: "jsstring \<Rightarrow> 'h \<Rightarrow> thrown + 'h"
  onNotification :: "jsstring \<Rightarrow> jsstring \<Rightarrow> jsstring \<Rightarrow> 'h \<Rightarrow> thrown + 'h"
  onNavigate :: "jsstring \<Rightarrow> 'h \<Rightarrow> thrown + 'h"

record ToolExecutionResult =
  success :: bool
  message :: jsstring
  action :: "jsstring option"

text \<open>
  A property read gives \<open>None\<close> (\<^verbatim>\<open>undefined\<close>) or a string; \<^verbatim>\<open>undefined\<close> and the empty
  string are the falsy ones. \<open>orDefault v d\<close> is \<^verbatim>\<open>v || d\<close>.
\<close>

definition truthy :: "jsstring option \<Rightarrow> bool" where
  "truthy v = (case v of None \<Rightarrow> False | Some x \<Rightarrow> x \<noteq> [])"

definition orDefault :: "jsstring option \<Rightarrow> jsstring \<Rightarrow> jsstring" where
  "orDefault v d = (case v of None \<Rightarrow> d | Some x \<Rightarrow> if x \<noteq> [] then x else d)"

definition failure :: "jsstring \<Rightarrow> ToolExecutionResult" where
  "failure m = \<lparr>success = False, message = m, action = None\<rparr>"

definition executeToolCall ::
  "'h UseToolCallsOptions \<Rightarrow> ToolCall \<Rightarrow> 'h \<Rightarrow> thrown + (ToolExecutionResult \<times> 'h)" where
  "executeToolCall options toolCall h =
     (if name toolCall = js ''change_theme'' then
        (case parameters toolCall (js ''theme'') of
           None \<Rightarrow> Inr (failure (js ''Missing theme parameter''), h)
         | Some theme \<Rightarrow>
             if theme = [] then Inr (failure (js ''Missing theme parameter''), h)
             else (case onThemeChange options theme h of
                     Inl e \<Rightarrow> Inl e
                   | Inr h' \<Rightarrow>
                       Inr (\<lparr>success = True,
                             message = js ''Theme changed to '' @ theme,
                             action = Some (js ''change_theme('' @ theme @ js '')'')\<rparr>, h')))
      else if name toolCall = js ''show_notification'' then
        (let msg = parameters toolCall (js ''message'');
             title = orDefault (parameters toolCall (js ''title'')) (js ''Notification'');
             type = orDefault (parameters toolCall (js ''type'')) (js ''info'')
         in case msg of
              None \<Rightarrow> Inr (failure (js ''Missing message parameter''), h)
            | Some m \<Rightarrow>
                if m = [] then Inr (failure (js ''Missing message parameter''), h)
                else (case onNotification options title m type h of
                        Inl e \<Rightarrow> Inl e
                      | Inr h' \<Rightarrow>
                          Inr (\<lparr>success = True,
                                message = js ''Notification shown: '' @ m,
                                action = Some (js ''show_notification('' @ [DQUOTE] @ title @ [DQUOTE]
                                               @ js '', '' @ [DQUOTE] @ m @ [DQUOTE]
                                               @ js '', '' @ [DQUOTE] @ type @ [DQUOTE]
                                               @ js '')'')\<rparr>, h')))
      else if name toolCall = js ''navigate_to_screen'' then
        (case parameters toolCall (js ''screen'') of
           None \<Rightarrow> Inr (failure (js ''Missing screen parameter''), h)
         | Some screen \<Rightarrow>
             if screen = [] then Inr (failure (js ''Missing screen parameter''), h)
             else (case onNavigate options screen h of
                     Inl e \<Rightarrow> Inl e
                   | Inr h' \<Rightarrow>
                       Inr (\<lparr>success = True,
                             message = js ''Navigated to '' @ screen,
                             action = Some (js ''navigate_to_screen('' @ screen @ js '')'')\<rparr>, h')))
      else Inr (failure (js ''Unknown function: '' @ name toolCall), h))"

record ProcessedResponse =
  toolCall :: "ToolCall option"
  result :: "ToolExecutionResult option"
  textResponse :: jsstring

definition processResponse ::
  "'h UseToolCallsOptions \<Rightarrow> jsstring \<Rightarrow> 'h \<Rightarrow> thrown + (ProcessedResponse \<times> 'h)" where
  "processResponse options response h =
     (let parsed = parseToolCall response;
          text = extractNonToolText response
      in case parsed of
           Some tc \<Rightarrow>
             (case executeToolCall options tc h of
                Inl e \<Rightarrow> Inl e
              | Inr (res, h') \<Rightarrow>
                  Inr (\<lparr>toolCall = Some tc, result = Some res, textResponse = text\<rparr>, h'))
         | None \<Rightarrow> Inr (\<lparr>toolCall = None, result = None, textResponse = response\<rparr>, h))"

text \<open>
  Recording callbacks, as a test would inject them: the host state is the list of the
  callback invocations so far, and no callback throws.
\<close>

datatype Effect =
  ThemeChange jsstring
  | Notification jsstring jsstring jsstring
  | Navigate jsstring

definition recording :: "Effect list UseToolCallsOptions" where
  "recording =
     \<lparr>onThemeChange = (\<lambda>theme h. Inr (h @ [ThemeChange theme])),
      onNotification = (\<lambda>title m type h. Inr (h @ [Notification title m type])),
      onNavigate = (\<lambda>screen h. Inr (h @ [Navigate screen]))\<rparr>"

section \<open>The wire format and the grammar of the specification\<close>

text \<open>
  The wire format as the specification gives it:
  \<^verbatim>\<open><start_function_call>call:NAME{key1:<escape>value1<escape>,...}<end_function_call>\<close>.
  The application has no encoder (the fine-tuning guide formats its training examples
  the same way); \<open>spec_encodeCall\<close> writes a name and a list of key/value pairs in that
  format.
\<close>

definition spec_encodeParam :: "jsstring \<times> jsstring \<Rightarrow> jsstring" where
  "spec_encodeParam kv = fst kv @ [COLON] @ ESCAPE @ snd kv @ ESCAPE"

fun joinStr :: "jschar \<Rightarrow> jsstring list \<Rightarrow> jsstring" where
  "joinStr sep [] = []"
| "joinStr sep [x] = x"
| "joinStr sep (x # y # ys) = x @ sep # joinStr sep (y # ys)"

definition spec_encodeCall :: "jsstring \<Rightarrow> (jsstring \<times> jsstring) list \<Rightarrow> jsstring" where
  "spec_encodeCall nm kvs =
     START_CALL @ js ''call:'' @ nm @ [LBRACE] @ joinStr COMMA (map spec_encodeParam kvs)
       @ [RBRACE] @ END_CALL"

text \<open>
  A well-formed call in the words of the specification's round-trip property: a name of
  word characters, keys that are distinct and not empty, values without comma, closing
  brace or escape marker.
\<close>

definition spec_wellFormed :: "jsstring \<Rightarrow> (jsstring \<times> jsstring) list \<Rightarrow> bool" where
  "spec_wellFormed nm kvs \<longleftrightarrow>
     nm \<noteq> [] \<and> list_all isWordChar nm \<and> distinct (map fst kvs) \<and>
     list_all (\<lambda>kv. fst kv \<noteq> [] \<and> COMMA \<notin> set (snd kv) \<and> RBRACE \<notin> set (snd kv)
                    \<and> \<not> includesStr (snd kv) ESCAPE) kvs"

text \<open>
  A text has a substring matching the full call grammar of the specification
  (\<^verbatim>\<open>call := "<start_function_call>" "call:" NAME "{" params? "}" "<end_function_call>"\<close>,
  \<^verbatim>\<open>param := KEY ":" "<escape>" VALUE "<escape>"\<close>).
\<close>

definition spec_matchesCallGrammar :: "jsstring \<Rightarrow> bool" where
  "spec_matchesCallGrammar t \<longleftrightarrow>
     (\<exists>pre post nm kvs. t = pre @ spec_encodeCall nm kvs @ post \<and> nm \<noteq> [] \<and> list_all isWordChar nm)"

text \<open>
  A text has a substring of the shape that \<open>toolCallRegex\<close> describes: the markers, a name
  of word characters, and between the braces any text without a closing brace.
\<close>

definition matchesCallPattern :: "jsstring \<Rightarrow> bool" where
  "matchesCallPattern t \<longleftrightarrow>
     (\<exists>pre post nm body.
        t = pre @ START_CALL @ js ''call:'' @ nm @ [LBRACE] @ body @ [RBRACE] @ END_CALL @ post
        \<and> nm \<noteq> [] \<and> list_all isWordChar nm \<and> RBRACE \<notin> set body)"

text \<open>
  A text has a span that \<open>extractNonToolText\<close> removes: a start marker and an end marker
  after it with no line terminator in between.
\<close>

fun containsSpan :: "jsstring \<Rightarrow> bool" where
  "containsSpan [] = False"
| "containsSpan (c # cs) = (spanRegex_at (c # cs) \<noteq> None \<or> containsSpan cs)"

section \<open>The model lifecycle (\<^verbatim>\<open>LLMProvider\<close>)\<close>

datatype ModelStatus = Idle | Asking | Downloading | Downloaded | Loading | Ready | Error

text \<open>An inference context of the engine, known by its identity only.\<close>

type_synonym LlamaCtx = nat

text \<open>
  The provider's state: the three \<^verbatim>\<open>useState\<close> cells and the \<^verbatim>\<open>useRef\<close> cell that holds the
  inference handle. A \<^verbatim>\<open>setStatus\<close> is taken to act at once.
\<close>

record LLMState =
  status :: ModelStatus
  downloadProgress :: rat
  error :: "jsstring option"
  llamaContextRef :: "LlamaCtx option"

definition initialState :: LLMState where
  "initialState = \<lparr>status = Idle, downloadProgress = 0, error = None, llamaContextRef = None\<rparr>"

definition isModelReady :: "LLMState \<Rightarrow> bool" where
  "isModelReady s \<longleftrightarrow> llamaContextRef s \<noteq> None"

text \<open>\<^verbatim>\<open>err instanceof Error ? err.message : fallback\<close>.\<close>

definition errMessage :: "thrown \<Rightarrow> jsstring \<Rightarrow> jsstring" where
  "errMessage e fallback = (case e of ErrorObj m \<Rightarrow> m | NonError \<Rightarrow> fallback)"

definition askToDownload :: "LLMState \<Rightarrow> LLMState" where
  "askToDownload s = s\<lparr>status := Asking, error := None\<rparr>"

definition cancelDownload :: "LLMState \<Rightarrow> LLMState" where
  "cancelDownload s = s\<lparr>status := Idle\<rparr>"

text \<open>
  What the file system says about the model file: whether it exists, and its size
  (\<open>None\<close> when the size is \<^verbatim>\<open>null\<close>).
\<close>

record ModelFile =
  fileExists :: bool
  fileSize :: "nat option"

text \<open>
  \<open>confirmDownload\<close> catches whatever is thrown, so it always completes. The
  collaborators are given by what they do in this run: the state of the file, the
  fractions that the progress callback reports in order, and the outcome of
  \<^verbatim>\<open>downloadAsync\<close> (it throws, or returns a result whose \<^verbatim>\<open>uri\<close> is a string or missing).
\<close>

definition confirmDownload ::
  "ModelFile \<Rightarrow> rat list \<Rightarrow> thrown + jsstring option \<Rightarrow> LLMState \<Rightarrow> LLMState" where
  "confirmDownload modelFile progress outcome s =
     (let s1 = s\<lparr>status := Downloading, error := None, downloadProgress := 0\<rparr>
      in if fileExists modelFile
            \<and> (case fileSize modelFile of None \<Rightarrow> False | Some n \<Rightarrow> n \<noteq> 0 \<and> n > 100000000)
         then s1\<lparr>status := Downloaded, downloadProgress := 1\<rparr>
         else
           (let s2 = foldl (\<lambda>st percent. st\<lparr>downloadProgress := percent\<rparr>) s1 progress;
                failed = (\<lambda>e. s2\<lparr>error := Some (errMessage e (js ''Failed to download model'')),
                                  status := Error\<rparr>)
            in case outcome of
                 Inl e \<Rightarrow> failed e
               | Inr uri \<Rightarrow>
                   if \<not> truthy uri then failed (ErrorObj (js ''Download failed - no URI returned''))
                   else s2\<lparr>status := Downloaded, downloadProgress := 1\<rparr>))"

text \<open>
  \<open>loadModel\<close> also catches everything. Its collaborators: whether the model file
  exists, what \<^verbatim>\<open>releaseAllLlama\<close> does if it is called (\<open>None\<close>: it returns), and what
  \<^verbatim>\<open>initLlama\<close> does.
\<close>

definition loadModel ::
  "bool \<Rightarrow> thrown option \<Rightarrow> thrown + LlamaCtx \<Rightarrow> LLMState \<Rightarrow> LLMState" where
  "loadModel modelFileExists released initialised s =
     (let s1 = s\<lparr>status := Loading, error := None\<rparr>;
          failed = (\<lambda>st e. st\<lparr>error := Some (errMessage e (js ''Failed to load model'')),
                              status := Error\<rparr>);
          init = (\<lambda>st. case initialised of
                          Inl e \<Rightarrow> failed st e
                        | Inr context \<Rightarrow> st\<lparr>llamaContextRef := Some context, status := Ready\<rparr>)
      in if \<not> modelFileExists
         then failed s1 (ErrorObj (js ''Model file not found. Please download first.''))
         else (case llamaContextRef s1 of
                 Some old \<Rightarrow>
                   (case released of
                      Some e \<Rightarrow> failed s1 e
                    | None \<Rightarrow> init (s1\<lparr>llamaContextRef := None\<rparr>))
               | None \<Rightarrow> init s1))"

text \<open>
  \<open>releaseModel\<close>: when \<^verbatim>\<open>releaseAllLlama\<close> throws, the \<^verbatim>\<open>catch\<close> only logs a warning.
\<close>

definition releaseModel :: "thrown option \<Rightarrow> LLMState \<Rightarrow> LLMState" where
  "releaseModel released s =
     (case released of
        None \<Rightarrow> s\<lparr>llamaContextRef := None, status := Downloaded\<rparr>
      | Some e \<Rightarrow> s)"

text \<open>
  \<open>generateResponse\<close> writes no cell of the state. It throws when no handle is held;
  otherwise the engine's \<^verbatim>\<open>completion\<close> throws or returns its text (possibly missing)
  beside the text accumulated from the partial tokens.
\<close>

definition generateResponse ::
  "jsstring \<Rightarrow> thrown + (jsstring option \<times> jsstring) \<Rightarrow> LLMState \<Rightarrow> (thrown + jsstring) \<times> LLMState" where
  "generateResponse userPrompt completion s =
     (case llamaContextRef s of
        None \<Rightarrow> (Inl (ErrorObj (js ''Model is not ready'')), s)
      | Some ctx \<Rightarrow>
          (case completion of
             Inl e \<Rightarrow> (Inl (ErrorObj (errMessage e (js ''Failed to generate response''))), s)
           | Inr (text, fullText) \<Rightarrow> (Inr (orDefault text fullText), s)))"

text \<open>A lifecycle operation together with what its collaborators do when it runs.\<close>

datatype Op =
  AskToDownload
  | CancelDownload
  | ConfirmDownload ModelFile "rat list" "thrown + jsstring option"
  | LoadModel bool "thrown option" "thrown + LlamaCtx"
  | GenerateResponse jsstring "thrown + (jsstring option \<times> jsstring)"
  | ReleaseModel "thrown option"

fun step :: "LLMState \<Rightarrow> Op \<Rightarrow> LLMState" where
  "step s AskToDownload = askToDownload s"
| "step s CancelDownload = cancelDownload s"
| "step s (ConfirmDownload f ps out) = confirmDownload f ps out s"
| "step s (LoadModel ex rel ini) = loadModel ex rel ini s"
| "step s (GenerateResponse prompt completion) = snd (generateResponse prompt completion s)"
| "step s (ReleaseModel rel) = releaseModel rel s"

definition run :: "LLMState \<Rightarrow> Op list \<Rightarrow> LLMState" where
  "run s ops = foldl step s ops"

text \<open>
  Where the screens offer an operation: the button for \<open>askToDownload\<close> is shown while
  no handle is held and the status is \<open>idle\<close>; the dialog has Cancel and Download (or
  Retry) in the states \<open>asking\<close> and \<open>error\<close>, and Load Model in the state \<open>downloaded\<close>.
  Sending a prompt and \<open>releaseModel\<close> are bound to no state.
\<close>

fun offered :: "LLMState \<Rightarrow> Op \<Rightarrow> bool" where
  "offered s AskToDownload \<longleftrightarrow> \<not> isModelReady s \<and> status s = Idle"
| "offered s CancelDownload \<longleftrightarrow> status s = Asking \<or> status s = Error"
| "offered s (ConfirmDownload f ps out) \<longleftrightarrow> status s = Asking \<or> status s = Error"
| "offered s (LoadModel ex rel ini) \<longleftrightarrow> status s = Downloaded"
| "offered s (GenerateResponse prompt completion) \<longleftrightarrow> True"
| "offered s (ReleaseModel rel) \<longleftrightarrow> True"

fun offeredAll :: "LLMState \<Rightarrow> Op list \<Rightarrow> bool" where
  "offeredAll s [] \<longleftrightarrow> True"
| "offeredAll s (op # ops) \<longleftrightarrow> offered s op \<and> offeredAll (step s op) ops"

definition handleIffReady :: "LLMState \<Rightarrow> bool" where
  "handleIffReady s \<longleftrightarrow> (llamaContextRef s \<noteq> None) = (status s = Ready)"

section \<open>Properties of the lifecycle\<close>

lemma progress_fields [simp]:
  "status (foldl (\<lambda>st percent. st\<lparr>downloadProgress := percent\<rparr>) s ps) = status s"
  "error (foldl (\<lambda>st percent. st\<lparr>downloadProgress := percent\<rparr>) s ps) = error s"
  "llamaContextRef (foldl (\<lambda>st percent. st\<lparr>downloadProgress := percent\<rparr>) s ps) = llamaContextRef s"
  by (induction ps arbitrary: s) auto

lemma step_ready_handle:
  "(status s = Ready \<longrightarrow> llamaContextRef s \<noteq> None) \<Longrightarrow>
   status (step s op) = Ready \<longrightarrow> llamaContextRef (step s op) \<noteq> None"
  by (cases op)
     (auto simp: askToDownload_def cancelDownload_def confirmDownload_def loadModel_def
        releaseModel_def generateResponse_def Let_def
        split: option.splits sum.splits if_splits prod.splits)

lemma step_offered_iff:
  "handleIffReady s \<Longrightarrow> offered s op \<Longrightarrow> handleIffReady (step s op)"
  by (cases op)
     (auto simp: handleIffReady_def isModelReady_def askToDownload_def cancelDownload_def
        confirmDownload_def loadModel_def releaseModel_def generateResponse_def Let_def
        split: option.splits sum.splits if_splits prod.splits)

lemma run_ready_handle:
  "(status s = Ready \<longrightarrow> llamaContextRef s \<noteq> None) \<Longrightarrow>
   status (run s ops) = Ready \<longrightarrow> llamaContextRef (run s ops) \<noteq> None"
  unfolding run_def
proof (induction ops arbitrary: s)
  case Nil
  then show ?case by simp
next
  case (Cons op ops)
  from step_ready_handle [OF Cons.prems] have "status (step s op) = Ready \<longrightarrow> llamaContextRef (step s op) \<noteq> None" .
  from Cons.IH [OF this] show ?case by simp
qed

lemma run_offered_iff:
  "handleIffReady s \<Longrightarrow> offeredAll s ops \<Longrightarrow> handleIffReady (run s ops)"
  unfolding run_def
proof (induction ops arbitrary: s)
  case Nil
  then show ?case by simp
next
  case (Cons op ops)
  then show ?case using step_offered_iff by simp
qed

text \<open>
  Claim C1, as amended. After any sequence of lifecycle operations from the initial state,
  whatever the collaborators do: if the status is \<open>ready\<close> then a handle is held. If
  moreover every operation of the sequence was invoked in a state where the screens offer
  it, then a handle is held if and only if the status is \<open>ready\<close>. Every prefix of a
  sequence is a sequence, so this covers the state after every transition.
\<close>

theorem lifecycle_handle_invariant:
  "(status (run initialState ops) = Ready \<longrightarrow> llamaContextRef (run initialState ops) \<noteq> None)
   \<and> (offeredAll initialState ops \<longrightarrow> handleIffReady (run initialState ops))"
proof
  show "status (run initialState ops) = Ready \<longrightarrow> llamaContextRef (run initialState ops) \<noteq> None"
    by (rule run_ready_handle) (simp add: initialState_def)
  show "offeredAll initialState ops \<longrightarrow> handleIffReady (run initialState ops)"
    using run_offered_iff [of initialState ops] by (simp add: handleIffReady_def initialState_def)
qed

text \<open>
  Claim C1 as stated fails: \<open>askToDownload\<close> after a successful \<open>loadModel\<close> leaves the
  status \<open>asking\<close> while the handle is still held.
\<close>

theorem lifecycle_handle_iff_ready_counterexample:
  "\<not> handleIffReady (run initialState [LoadModel True None (Inr 1), AskToDownload])"
  by (simp add: run_def handleIffReady_def initialState_def loadModel_def askToDownload_def)

text \<open>Claim C1: the amended invariant on the way from \<open>idle\<close> to \<open>ready\<close>.\<close>

theorem lifecycle_handle_invariant_witness:
  "offeredAll initialState
     [AskToDownload, ConfirmDownload \<lparr>fileExists = False, fileSize = None\<rparr> [1/2] (Inr (Some (js ''file:///m.gguf''))),
      LoadModel True None (Inr 1)]
   \<and> status (run initialState
     [AskToDownload, ConfirmDownload \<lparr>fileExists = False, fileSize = None\<rparr> [1/2] (Inr (Some (js ''file:///m.gguf''))),
      LoadModel True None (Inr 1)]) = Ready
   \<and> llamaContextRef (run initialState
     [AskToDownload, ConfirmDownload \<lparr>fileExists = False, fileSize = None\<rparr> [1/2] (Inr (Some (js ''file:///m.gguf''))),
      LoadModel True None (Inr 1)]) = Some 1
   \<and> handleIffReady (run initialState
     [AskToDownload, ConfirmDownload \<lparr>fileExists = False, fileSize = None\<rparr> [1/2] (Inr (Some (js ''file:///m.gguf''))),
      LoadModel True None (Inr 1)])"
  using lifecycle_handle_invariant [of "[AskToDownload, ConfirmDownload \<lparr>fileExists = False, fileSize = None\<rparr> [1/2] (Inr (Some (js ''file:///m.gguf''))),
      LoadModel True None (Inr 1)]"]
  by (simp add: run_def initialState_def isModelReady_def askToDownload_def confirmDownload_def
      loadModel_def truthy_def js_def)

text \<open>
  Claim C8 as stated fails: in the initial state no handle is held, and \<open>releaseModel\<close>
  changes the status from \<open>idle\<close> to \<open>downloaded\<close>.
\<close>

theorem releaseModel_noop_counterexample:
  "llamaContextRef initialState = None \<and> releaseModel None initialState \<noteq> initialState"
  by (simp add: initialState_def releaseModel_def)

text \<open>
  Claim C8, as amended. \<open>releaseModel\<close> is idempotent, and after a release that the
  engine completed a further release changes nothing, whatever the engine does. When no
  handle is held it changes nothing but the status, which becomes \<open>downloaded\<close> if the
  engine's release returns; if the release throws, nothing changes at all. It never
  raises: its result is a state.
\<close>

theorem releaseModel_idempotent_status_only:
  "releaseModel rel (releaseModel rel s) = releaseModel rel s
   \<and> releaseModel rel' (releaseModel None s) = releaseModel None s
   \<and> (llamaContextRef s = None \<longrightarrow>
        releaseModel rel s = (case rel of None \<Rightarrow> s\<lparr>status := Downloaded\<rparr> | Some e \<Rightarrow> s))"
  by (cases rel; cases rel') (simp_all add: releaseModel_def)

text \<open>Claim C8: the amended statement at the initial state.\<close>

theorem releaseModel_idempotent_status_only_witness:
  "llamaContextRef initialState = None
   \<and> releaseModel None initialState = initialState\<lparr>status := Downloaded\<rparr>
   \<and> releaseModel None (releaseModel None initialState) = releaseModel None initialState"
  using releaseModel_idempotent_status_only [of None initialState None]
  by (simp add: initialState_def releaseModel_def)

section \<open>Properties of the dispatch\<close>

lemma js_names_distinct:
  "js ''change_theme'' \<noteq> js ''show_notification''"
  "js ''change_theme'' \<noteq> js ''navigate_to_screen''"
  "js ''show_notification'' \<noteq> js ''navigate_to_screen''"
  "js ''show_notification'' \<noteq> js ''change_theme''"
  "js ''navigate_to_screen'' \<noteq> js ''change_theme''"
  "js ''navigate_to_screen'' \<noteq> js ''show_notification''"
  by (simp_all add: js_def)

lemma js_keys_distinct:
  "js ''message'' \<noteq> js ''title''" "js ''message'' \<noteq> js ''type''" "js ''title'' \<noteq> js ''type''"
  "js ''title'' \<noteq> js ''message''" "js ''type'' \<noteq> js ''message''" "js ''type'' \<noteq> js ''title''"
  by (simp_all add: js_def)

text \<open>
  Claim C7. For a call whose name is none of \<open>change_theme\<close>, \<open>show_notification\<close>,
  \<open>navigate_to_screen\<close>, \<open>executeToolCall\<close> returns the failed outcome with the message
  \<open>Unknown function: \<close> followed by the name, as a value; the host state is the one it was
  given, whatever the callbacks are, so no callback ran and nothing was thrown.
\<close>

theorem executeToolCall_unknown:
  "name tc \<noteq> js ''change_theme'' \<Longrightarrow> name tc \<noteq> js ''show_notification'' \<Longrightarrow>
   name tc \<noteq> js ''navigate_to_screen'' \<Longrightarrow>
   executeToolCall options tc h =
     Inr (\<lparr>success = False, message = js ''Unknown function: '' @ name tc, action = None\<rparr>, h)"
  by (simp add: executeToolCall_def failure_def)

text \<open>Claim C7 at the name \<open>delete_everything\<close>, with recording callbacks.\<close>

theorem executeToolCall_unknown_witness:
  "name \<lparr>name = js ''delete_everything'', parameters = Map.empty\<rparr> \<noteq> js ''change_theme''
   \<and> name \<lparr>name = js ''delete_everything'', parameters = Map.empty\<rparr> \<noteq> js ''show_notification''
   \<and> name \<lparr>name = js ''delete_everything'', parameters = Map.empty\<rparr> \<noteq> js ''navigate_to_screen''
   \<and> executeToolCall recording \<lparr>name = js ''delete_everything'', parameters = Map.empty\<rparr> []
      = Inr (\<lparr>success = False, message = js ''Unknown function: delete_everything'', action = None\<rparr>, [])"
proof -
  have a: "name \<lparr>name = js ''delete_everything'', parameters = Map.empty\<rparr> \<noteq> js ''change_theme''"
    and b: "name \<lparr>name = js ''delete_everything'', parameters = Map.empty\<rparr> \<noteq> js ''show_notification''"
    and c: "name \<lparr>name = js ''delete_everything'', parameters = Map.empty\<rparr> \<noteq> js ''navigate_to_screen''"
    by (simp_all add: js_def)
  show ?thesis using a b c executeToolCall_unknown [OF a b c, of recording "[]"]
    by (simp add: js_def)
qed


lemma parse_hi:
  "parseToolCall (js ''<start_function_call>call:show_notification{message:<escape>Hi<escape>}<end_function_call>'')
   = Some \<lparr>name = js ''show_notification'', parameters = [js ''message'' \<mapsto> js ''Hi'']\<rparr>"
proof -
  have m: "toolCallRegex_match (js ''<start_function_call>call:show_notification{message:<escape>Hi<escape>}<end_function_call>'')
        = Some (js ''show_notification'', js ''message:<escape>Hi<escape>'')"
    by code_simp
  have s: "splitStr COMMA (js ''message:<escape>Hi<escape>'') = [js ''message:<escape>Hi<escape>'']"
    by code_simp
  have i: "indexOf COLON (js ''message:<escape>Hi<escape>'') = Some 7"
    by code_simp
  have k: "trim (take 7 (js ''message:<escape>Hi<escape>'')) = js ''message''"
    by code_simp
  have v: "removeEscapeTags (trim (drop (7 + 1) (js ''message:<escape>Hi<escape>''))) = js ''Hi''"
    by code_simp
  have ne: "js ''message:<escape>Hi<escape>'' \<noteq> []" "js ''message'' \<noteq> []"
    "js ''message'' \<noteq> PROTO"
    by (simp_all add: js_def PROTO_def)
  have "parseParams (js ''message:<escape>Hi<escape>'') = [js ''message'' \<mapsto> js ''Hi'']"
    unfolding parseParams_def s parsePair_def foldl.simps i option.case Let_def k v
    using ne by (simp add: assignProperty_def)
  with m show ?thesis by (simp add: parseToolCall_def)
qed

text \<open>
  Claim C6. The input decodes to the call \<open>show_notification\<close> with the one parameter
  \<open>message = Hi\<close>. Dispatching it invokes the notification callback with the title
  \<open>Notification\<close>, the message \<open>Hi\<close> and the type \<open>info\<close>, and, when the callback
  returns, yields the successful outcome with the message \<open>Notification shown: Hi\<close>; with
  recording callbacks that is the single recorded invocation.
\<close>

theorem show_notification_scenario:
  "parseToolCall (js ''<start_function_call>call:show_notification{message:<escape>Hi<escape>}<end_function_call>'')
     = Some \<lparr>name = js ''show_notification'', parameters = [js ''message'' \<mapsto> js ''Hi'']\<rparr>
   \<and> executeToolCall options \<lparr>name = js ''show_notification'', parameters = [js ''message'' \<mapsto> js ''Hi'']\<rparr> h
     = (case onNotification options (js ''Notification'') (js ''Hi'') (js ''info'') h of
          Inl e \<Rightarrow> Inl e
        | Inr h' \<Rightarrow>
            Inr (\<lparr>success = True, message = js ''Notification shown: Hi'',
                  action = Some (js ''show_notification('' @ [DQUOTE] @ js ''Notification'' @ [DQUOTE]
                                 @ js '', '' @ [DQUOTE] @ js ''Hi'' @ [DQUOTE]
                                 @ js '', '' @ [DQUOTE] @ js ''info'' @ [DQUOTE] @ js '')'')\<rparr>, h'))
   \<and> executeToolCall recording \<lparr>name = js ''show_notification'', parameters = [js ''message'' \<mapsto> js ''Hi'']\<rparr> []
     = Inr (\<lparr>success = True, message = js ''Notification shown: Hi'',
             action = Some (js ''show_notification('' @ [DQUOTE] @ js ''Notification'' @ [DQUOTE]
                                 @ js '', '' @ [DQUOTE] @ js ''Hi'' @ [DQUOTE]
                                 @ js '', '' @ [DQUOTE] @ js ''info'' @ [DQUOTE] @ js '')'')\<rparr>,
            [Notification (js ''Notification'') (js ''Hi'') (js ''info'')])"
proof -
  have hi: "js ''Hi'' \<noteq> []" by (simp add: js_def)
  have cat: "js ''Notification shown: '' @ js ''Hi'' = js ''Notification shown: Hi''" by (simp add: js_def)
  have e: "executeToolCall options \<lparr>name = js ''show_notification'', parameters = [js ''message'' \<mapsto> js ''Hi'']\<rparr> h
     = (case onNotification options (js ''Notification'') (js ''Hi'') (js ''info'') h of
          Inl e \<Rightarrow> Inl e
        | Inr h' \<Rightarrow>
            Inr (\<lparr>success = True, message = js ''Notification shown: Hi'',
                  action = Some (js ''show_notification('' @ [DQUOTE] @ js ''Notification'' @ [DQUOTE]
                                 @ js '', '' @ [DQUOTE] @ js ''Hi'' @ [DQUOTE]
                                 @ js '', '' @ [DQUOTE] @ js ''info'' @ [DQUOTE] @ js '')'')\<rparr>, h'))"
    for options :: "'x UseToolCallsOptions" and h
    using hi cat
    by (simp add: executeToolCall_def js_names_distinct js_keys_distinct orDefault_def Let_def
             split: sum.splits)
  show ?thesis
    using parse_hi e [of options h] e [of recording "[]"]
    by (simp add: recording_def)
qed

section \<open>Properties of the strings and of the two regular expressions\<close>

declare removeSpans.simps [simp del]
declare replaceAllLit.simps [simp del]

lemma stripPrefix_append [simp]: "stripPrefix p (p @ r) = Some r"
  by (simp add: stripPrefix_Some_iff)

lemma stripPrefix_None_iff: "stripPrefix p s = None \<longleftrightarrow> (\<forall>r. s \<noteq> p @ r)"
  by (metis stripPrefix_Some_iff not_Some_eq)

lemma includesStr_iff: "includesStr t p \<longleftrightarrow> (\<exists>pre post. t = pre @ p @ post)"
proof (induction t)
  case Nil
  then show ?case by auto
next
  case (Cons c cs)
  show ?case
  proof
    assume "includesStr (c # cs) p"
    then consider r where "c # cs = p @ r" | "includesStr cs p"
      by (auto simp: stripPrefix_Some_iff)
    then show "\<exists>pre post. c # cs = pre @ p @ post"
    proof cases
      case 1
      then have "c # cs = [] @ p @ r" by simp
      then show ?thesis by blast
    next
      case 2
      with Cons.IH obtain pre post where "cs = pre @ p @ post" by blast
      then have "c # cs = (c # pre) @ p @ post" by simp
      then show ?thesis by blast
    qed
  next
    assume "\<exists>pre post. c # cs = pre @ p @ post"
    then obtain pre post where e: "c # cs = pre @ p @ post" by blast
    show "includesStr (c # cs) p"
    proof (cases pre)
      case Nil
      with e have "stripPrefix p (c # cs) = Some post" by (simp add: stripPrefix_Some_iff)
      then show ?thesis by simp
    next
      case pc: (Cons a pre')
      with e have "cs = pre' @ p @ post" by simp
      with Cons.IH have "includesStr cs p" by blast
      then show ?thesis by simp
    qed
  qed
qed

lemma removeSpans_Nil [simp]: "removeSpans [] = []"
  by (simp add: removeSpans.simps)

lemma removeSpans_None: "spanRegex_at (c # cs) = None \<Longrightarrow> removeSpans (c # cs) = c # removeSpans cs"
  by (subst removeSpans.simps) simp

lemma removeSpans_Some: "spanRegex_at (c # cs) = Some r \<Longrightarrow> removeSpans (c # cs) = removeSpans r"
  by (subst removeSpans.simps) simp

lemma removeSpans_no_span: "\<not> containsSpan u \<Longrightarrow> removeSpans u = u"
  by (induction u) (auto simp: removeSpans_None)

lemma removeSpans_length: "length (removeSpans u) \<le> length u"
proof (induction u rule: removeSpans.induct)
  case (1 s)
  show ?case
  proof (cases s)
    case Nil
    then show ?thesis by simp
  next
    case (Cons c cs)
    show ?thesis
    proof (cases "spanRegex_at s")
      case None
      with Cons 1(1) [OF Cons None] show ?thesis by (simp add: removeSpans_None)
    next
      case (Some r)
      with Cons 1(2) [OF Cons Some] spanRegex_at_length [OF Some] show ?thesis
        by (simp add: removeSpans_Some)
    qed
  qed
qed

lemma removeSpans_shorter: "containsSpan u \<Longrightarrow> length (removeSpans u) < length u"
proof (induction u)
  case Nil
  then show ?case by simp
next
  case (Cons c cs)
  show ?case
  proof (cases "spanRegex_at (c # cs)")
    case None
    with Cons show ?thesis by (simp add: removeSpans_None)
  next
    case (Some r)
    have "length (removeSpans r) \<le> length r" by (rule removeSpans_length)
    with spanRegex_at_length [OF Some] Some show ?thesis by (simp add: removeSpans_Some)
  qed
qed

lemma last_dropWhile: "dropWhile P xs \<noteq> [] \<Longrightarrow> last (dropWhile P xs) = last xs"
  by (metis last_appendR takeWhile_dropWhile_id)

lemma trim_idem: "trim (trim s) = trim s"
proof -
  define d where "d = dropWhile isWhiteSpace s"
  define e where "e = dropWhile isWhiteSpace (rev d)"
  have t: "trim s = rev e" by (simp add: trim_def d_def e_def)
  have 1: "dropWhile isWhiteSpace (rev e) = rev e"
  proof (cases "e = []")
    case True
    then show ?thesis by simp
  next
    case False
    then have "last e = last (rev d)" unfolding e_def by (rule last_dropWhile)
    moreover from False have dne: "d \<noteq> []" by (auto simp: e_def)
    ultimately have "last e = hd d" by (simp add: last_rev)
    moreover have "\<not> isWhiteSpace (hd d)" using dne unfolding d_def by (rule hd_dropWhile)
    ultimately have "\<not> isWhiteSpace (hd (rev e))" using False by (simp add: hd_rev)
    then show ?thesis by (simp add: dropWhile_eq_self_iff)
  qed
  have 2: "dropWhile isWhiteSpace e = e"
  proof (cases "e = []")
    case True
    then show ?thesis by simp
  next
    case False
    then have "\<not> isWhiteSpace (hd e)" unfolding e_def by (rule hd_dropWhile)
    then show ?thesis by (simp add: dropWhile_eq_self_iff)
  qed
  show ?thesis unfolding t by (simp add: trim_def 1 2)
qed

lemma trim_length: "length (trim s) \<le> length s"
proof -
  have "length (trim s) \<le> length (dropWhile isWhiteSpace s)"
    unfolding trim_def by (metis length_dropWhile_le length_rev)
  also have "\<dots> \<le> length s" by (rule length_dropWhile_le)
  finally show ?thesis .
qed

lemma lazyEnd_Some:
  "lazyEnd r = Some rest \<Longrightarrow> \<exists>mid. r = mid @ END_CALL @ rest \<and> (\<forall>c\<in>set mid. \<not> isLineTerminator c)"
proof (induction r)
  case Nil
  then have "[] = [] @ END_CALL @ rest" by (simp add: stripPrefix_Some_iff)
  then show ?case by (metis empty_iff empty_set)
next
  case (Cons c cs)
  show ?case
  proof (cases "stripPrefix END_CALL (c # cs)")
    case (Some r')
    with Cons.prems have "c # cs = [] @ END_CALL @ rest" by (simp add: stripPrefix_Some_iff)
    then show ?thesis by (metis empty_iff empty_set)
  next
    case None
    with Cons.prems have nl: "\<not> isLineTerminator c" and "lazyEnd cs = Some rest"
      by (auto split: if_splits)
    with Cons.IH obtain mid where "cs = mid @ END_CALL @ rest" "\<forall>c\<in>set mid. \<not> isLineTerminator c"
      by blast
    with nl have "c # cs = (c # mid) @ END_CALL @ rest \<and> (\<forall>x\<in>set (c # mid). \<not> isLineTerminator x)"
      by simp
    then show ?thesis by blast
  qed
qed

lemma lazyEnd_at_end: "stripPrefix END_CALL s = Some r \<Longrightarrow> lazyEnd s = Some r"
  by (cases s) auto

lemma lazyEnd_complete:
  "\<forall>c\<in>set mid. \<not> isLineTerminator c \<Longrightarrow> lazyEnd (mid @ END_CALL @ post) \<noteq> None"
proof (induction mid)
  case Nil
  have "lazyEnd (END_CALL @ post) = Some post"
    by (rule lazyEnd_at_end) simp
  then show ?case by simp
next
  case (Cons c mid)
  then show ?case by (auto split: option.splits)
qed

lemma containsSpan_iff:
  "containsSpan u \<longleftrightarrow>
     (\<exists>pre mid post. u = pre @ START_CALL @ mid @ END_CALL @ post \<and> (\<forall>c\<in>set mid. \<not> isLineTerminator c))"
proof (induction u)
  case Nil
  have "START_CALL \<noteq> []" by (simp add: START_CALL_def js_def)
  then show ?case by simp
next
  case (Cons c cs)
  show ?case
  proof
    assume "containsSpan (c # cs)"
    then consider "spanRegex_at (c # cs) \<noteq> None" | "containsSpan cs" by auto
    then show "\<exists>pre mid post. c # cs = pre @ START_CALL @ mid @ END_CALL @ post \<and> (\<forall>c\<in>set mid. \<not> isLineTerminator c)"
    proof cases
      case 1
      then obtain r rest where "c # cs = START_CALL @ r" "lazyEnd r = Some rest"
        by (auto simp: spanRegex_at_def stripPrefix_Some_iff split: option.splits)
      with lazyEnd_Some obtain mid where "c # cs = [] @ START_CALL @ mid @ END_CALL @ rest"
        "\<forall>c\<in>set mid. \<not> isLineTerminator c" by fastforce
      then show ?thesis by blast
    next
      case 2
      with Cons.IH obtain pre mid post where "cs = pre @ START_CALL @ mid @ END_CALL @ post"
        "\<forall>c\<in>set mid. \<not> isLineTerminator c" by blast
      then have "c # cs = (c # pre) @ START_CALL @ mid @ END_CALL @ post \<and> (\<forall>c\<in>set mid. \<not> isLineTerminator c)"
        by simp
      then show ?thesis by blast
    qed
  next
    assume "\<exists>pre mid post. c # cs = pre @ START_CALL @ mid @ END_CALL @ post \<and> (\<forall>c\<in>set mid. \<not> isLineTerminator c)"
    then obtain pre mid post where e: "c # cs = pre @ START_CALL @ mid @ END_CALL @ post"
      and nl: "\<forall>c\<in>set mid. \<not> isLineTerminator c" by blast
    show "containsSpan (c # cs)"
    proof (cases pre)
      case Nil
      with e have "stripPrefix START_CALL (c # cs) = Some (mid @ END_CALL @ post)"
        by (simp add: stripPrefix_Some_iff)
      with lazyEnd_complete [OF nl, of post] show ?thesis by (simp add: spanRegex_at_def)
    next
      case pc: (Cons a pre')
      with e have "cs = pre' @ START_CALL @ mid @ END_CALL @ post" by simp
      with nl Cons.IH have "containsSpan cs" by blast
      then show ?thesis by simp
    qed
  qed
qed


lemma extract_fixed_iff:
  assumes "trim u = u"
  shows "extractNonToolText u = u \<longleftrightarrow> \<not> containsSpan u"
proof
  assume eq: "extractNonToolText u = u"
  show "\<not> containsSpan u"
  proof
    assume "containsSpan u"
    then have "length (removeSpans u) < length u" by (rule removeSpans_shorter)
    moreover have "length (extractNonToolText u) \<le> length (removeSpans u)"
      by (simp add: extractNonToolText_def trim_length)
    ultimately show False using eq by simp
  qed
next
  assume "\<not> containsSpan u"
  then have "removeSpans u = u" by (rule removeSpans_no_span)
  with assms show "extractNonToolText u = u" by (simp add: extractNonToolText_def)
qed

text \<open>
  Claim C4, as amended. Applying \<open>extractNonToolText\<close> twice gives the same as applying it
  once exactly when the result of the first application contains no span any more, that
  is no start marker that is followed, with no line terminator in between, by an end
  marker (\<open>containsSpan_iff\<close>). Removing a span can join the text around it into a new
  span, which only a second application removes.
\<close>

theorem extractNonToolText_idempotent_iff:
  "extractNonToolText (extractNonToolText t) = extractNonToolText t
   \<longleftrightarrow> \<not> containsSpan (extractNonToolText t)"
proof (rule extract_fixed_iff)
  show "trim (extractNonToolText t) = extractNonToolText t"
    by (simp add: extractNonToolText_def trim_idem)
qed


lemma extract_spliced_once: "extractNonToolText (js ''<start_fun<start_function_call>x<end_function_call>ction_call>y<end_function_call>'') = js ''<start_function_call>y<end_function_call>''"
  by code_simp

lemma extract_spliced_twice: "extractNonToolText (js ''<start_function_call>y<end_function_call>'') = []"
  by code_simp

text \<open>
  Claim C4 as stated fails: in this text the removal of the one span joins the two halves
  of a start marker, so the first application leaves a span and the second removes it.
\<close>

theorem extractNonToolText_not_idempotent_counterexample: "extractNonToolText (extractNonToolText (js ''<start_fun<start_function_call>x<end_function_call>ction_call>y<end_function_call>''))
  \<noteq> extractNonToolText (js ''<start_fun<start_function_call>x<end_function_call>ction_call>y<end_function_call>'')"
  unfolding extract_spliced_once extract_spliced_twice by (simp add: js_def)

text \<open>Claim C4: the amended statement on a text with one call and prose around it.\<close>

theorem extractNonToolText_idempotent_iff_witness:
  "\<not> containsSpan (extractNonToolText (js ''  ok <start_function_call>call:f{}<end_function_call> ''))
   \<and> extractNonToolText (extractNonToolText (js ''  ok <start_function_call>call:f{}<end_function_call> ''))
     = extractNonToolText (js ''  ok <start_function_call>call:f{}<end_function_call> '')
   \<and> extractNonToolText (js ''  ok <start_function_call>call:f{}<end_function_call> '') = js ''ok''"
proof -
  have v: "extractNonToolText (js ''  ok <start_function_call>call:f{}<end_function_call> '') = js ''ok''"
    by code_simp
  have n: "\<not> containsSpan (js ''ok'')" by code_simp
  show ?thesis using extractNonToolText_idempotent_iff [of "js ''  ok <start_function_call>call:f{}<end_function_call> ''"] n
    unfolding v by simp
qed

section \<open>Properties of the decoder\<close>

lemma not_word_LBRACE [simp]: "\<not> isWordChar LBRACE"
  by (simp add: isWordChar_def LBRACE_def)

lemma toolCallRegex_at_Some:
  assumes "toolCallRegex_at s = Some (nm, body)"
  shows "\<exists>post. s = START_CALL @ js ''call:'' @ nm @ [LBRACE] @ body @ [RBRACE] @ END_CALL @ post
            \<and> nm \<noteq> [] \<and> list_all isWordChar nm \<and> RBRACE \<notin> set body"
proof -
  from assms obtain r where r: "s = (START_CALL @ js ''call:'') @ r"
    by (auto simp: toolCallRegex_at_def stripPrefix_Some_iff split: option.splits)
  then have sp: "stripPrefix (START_CALL @ js ''call:'') s = Some r" by (simp add: stripPrefix_Some_iff)
  from assms sp obtain r2 where nm: "nm = takeWhile isWordChar r" "nm \<noteq> []"
    and r2: "dropWhile isWordChar r = [LBRACE] @ r2"
    by (auto simp: toolCallRegex_at_def Let_def stripPrefix_Some_iff split: option.splits if_splits)
  then have sp2: "stripPrefix [LBRACE] (dropWhile isWordChar r) = Some r2"
    by (simp add: stripPrefix_Some_iff)
  from assms sp nm sp2 obtain r4 where body: "body = takeWhile (\<lambda>c. c \<noteq> RBRACE) r2"
    and r4: "dropWhile (\<lambda>c. c \<noteq> RBRACE) r2 = (RBRACE # END_CALL) @ r4"
    by (auto simp: toolCallRegex_at_def Let_def stripPrefix_Some_iff split: option.splits if_splits)
  have "r = nm @ [LBRACE] @ r2" using nm(1) r2 by (metis takeWhile_dropWhile_id)
  moreover have "r2 = body @ (RBRACE # END_CALL) @ r4" using body r4 by (metis takeWhile_dropWhile_id)
  ultimately have "s = START_CALL @ js ''call:'' @ nm @ [LBRACE] @ body @ [RBRACE] @ END_CALL @ r4"
    using r by simp
  moreover have "list_all isWordChar nm" unfolding nm(1) list_all_iff by (auto dest: set_takeWhileD)
  moreover have "RBRACE \<notin> set body" unfolding body by (auto dest: set_takeWhileD)
  ultimately show ?thesis using nm(2) by blast
qed

lemma toolCallRegex_at_complete:
  assumes "nm \<noteq> []" "list_all isWordChar nm" "RBRACE \<notin> set body"
  shows "toolCallRegex_at (START_CALL @ js ''call:'' @ nm @ [LBRACE] @ body @ [RBRACE] @ END_CALL @ post)
         = Some (nm, body)"
proof -
  let ?r = "nm @ [LBRACE] @ body @ [RBRACE] @ END_CALL @ post"
  have sp: "stripPrefix (START_CALL @ js ''call:'')
              (START_CALL @ js ''call:'' @ nm @ [LBRACE] @ body @ [RBRACE] @ END_CALL @ post) = Some ?r"
    by (simp add: stripPrefix_Some_iff)
  have w: "\<forall>c\<in>set nm. isWordChar c" using assms(2) by (simp add: list_all_iff)
  have tw: "takeWhile isWordChar ?r = nm" using w by (simp add: takeWhile_append2)
  have dw: "dropWhile isWordChar ?r = [LBRACE] @ body @ [RBRACE] @ END_CALL @ post"
    using w by (simp add: dropWhile_append2)
  have b: "\<forall>c\<in>set body. c \<noteq> RBRACE" using assms(3) by auto
  have tb: "takeWhile (\<lambda>c. c \<noteq> RBRACE) (body @ [RBRACE] @ END_CALL @ post) = body"
    using b by (simp add: takeWhile_append2)
  have db: "dropWhile (\<lambda>c. c \<noteq> RBRACE) (body @ [RBRACE] @ END_CALL @ post) = (RBRACE # END_CALL) @ post"
    using b by (simp add: dropWhile_append2)
  show ?thesis
    unfolding toolCallRegex_at_def sp option.case Let_def tw dw
    using assms(1) tb db by (simp add: stripPrefix_Some_iff)
qed

lemma toolCallRegex_match_Some:
  "toolCallRegex_match t = Some m \<Longrightarrow> \<exists>pre r. t = pre @ r \<and> toolCallRegex_at r = Some m"
proof (induction t)
  case Nil
  then show ?case by simp
next
  case (Cons c cs)
  show ?case
  proof (cases "toolCallRegex_at (c # cs)")
    case None
    with Cons obtain pre r where "cs = pre @ r" "toolCallRegex_at r = Some m" by auto
    then have "c # cs = (c # pre) @ r \<and> toolCallRegex_at r = Some m" by simp
    then show ?thesis by blast
  next
    case (Some a)
    with Cons.prems have "c # cs = [] @ (c # cs) \<and> toolCallRegex_at (c # cs) = Some m" by simp
    then show ?thesis by blast
  qed
qed

lemma toolCallRegex_match_append:
  "toolCallRegex_at r \<noteq> None \<Longrightarrow> toolCallRegex_match (pre @ r) \<noteq> None"
proof (induction pre)
  case Nil
  then show ?case by (cases r) auto
next
  case (Cons a pre)
  then show ?case by (auto split: option.splits)
qed

lemma toolCallRegex_match_None_iff:
  "toolCallRegex_match t = None \<longleftrightarrow> \<not> matchesCallPattern t"
proof
  assume n: "toolCallRegex_match t = None"
  show "\<not> matchesCallPattern t"
  proof
    assume "matchesCallPattern t"
    then obtain pre post nm body where
      t: "t = pre @ START_CALL @ js ''call:'' @ nm @ [LBRACE] @ body @ [RBRACE] @ END_CALL @ post"
      and c: "nm \<noteq> []" "list_all isWordChar nm" "RBRACE \<notin> set body"
      unfolding matchesCallPattern_def by blast
    have "toolCallRegex_match (pre @ START_CALL @ js ''call:'' @ nm @ [LBRACE] @ body @ [RBRACE] @ END_CALL @ post) \<noteq> None"
      by (rule toolCallRegex_match_append) (simp only: toolCallRegex_at_complete [OF c] option.distinct not_False_eq_True)
    with n t show False by simp
  qed
next
  assume nm: "\<not> matchesCallPattern t"
  show "toolCallRegex_match t = None"
  proof (rule ccontr)
    assume "toolCallRegex_match t \<noteq> None"
    then obtain nm body where "toolCallRegex_match t = Some (nm, body)" by auto
    then obtain pre r where "t = pre @ r" "toolCallRegex_at r = Some (nm, body)"
      using toolCallRegex_match_Some by blast
    with toolCallRegex_at_Some [of r nm body] have "matchesCallPattern t"
      unfolding matchesCallPattern_def by blast
    with nm show False by simp
  qed
qed

text \<open>
  Claim C3, as amended. For every response that contains the start marker but no
  substring of the shape \<^verbatim>\<open><start_function_call>call:NAME{BODY}<end_function_call>\<close>, with
  NAME one or more word characters and BODY any text without a closing brace,
  \<open>parseToolCall\<close> returns no call, and \<open>processResponse\<close> returns no call, no result
  and the raw response as its text, without running a callback.
\<close>

theorem processResponse_no_pattern_is_prose:
  assumes "hasToolCall response" "\<not> matchesCallPattern response"
  shows "parseToolCall response = None
         \<and> processResponse options response h
           = Inr (\<lparr>toolCall = None, result = None, textResponse = response\<rparr>, h)"
proof -
  from assms(2) have "toolCallRegex_match response = None" by (simp add: toolCallRegex_match_None_iff)
  then have "parseToolCall response = None" by (simp add: parseToolCall_def)
  then show ?thesis by (simp add: processResponse_def)
qed

text \<open>Claim C3: the amended statement on a call whose end marker is missing.\<close>

theorem processResponse_no_pattern_is_prose_witness:
  "hasToolCall (js ''<start_function_call>call:change_theme{theme:<escape>dark<escape>}'')
   \<and> \<not> matchesCallPattern (js ''<start_function_call>call:change_theme{theme:<escape>dark<escape>}'')
   \<and> parseToolCall (js ''<start_function_call>call:change_theme{theme:<escape>dark<escape>}'') = None
   \<and> processResponse recording (js ''<start_function_call>call:change_theme{theme:<escape>dark<escape>}'') []
       = Inr (\<lparr>toolCall = None, result = None,
                textResponse = js ''<start_function_call>call:change_theme{theme:<escape>dark<escape>}''\<rparr>, [])"
proof -
  have a: "hasToolCall (js ''<start_function_call>call:change_theme{theme:<escape>dark<escape>}'')"
    by code_simp
  have "toolCallRegex_match (js ''<start_function_call>call:change_theme{theme:<escape>dark<escape>}'') = None"
    by code_simp
  then have b: "\<not> matchesCallPattern (js ''<start_function_call>call:change_theme{theme:<escape>dark<escape>}'')"
    by (simp add: toolCallRegex_match_None_iff)
  show ?thesis using a b processResponse_no_pattern_is_prose [OF a b, of recording "[]"] by simp
qed

lemma joinStr_last: "segs \<noteq> [] \<Longrightarrow> \<exists>x. joinStr sep segs = x @ last segs"
proof (induction sep segs rule: joinStr.induct)
  case (1 sep)
  then show ?case by simp
next
  case (2 sep x)
  then show ?case by simp
next
  case (3 sep x y ys)
  then obtain z where "joinStr sep (y # ys) = z @ last (y # ys)" by auto
  then have "joinStr sep (x # y # ys) = (x @ sep # z) @ last (x # y # ys)" by simp
  then show ?case by blast
qed

lemma spec_grammar_necessary:
  assumes "spec_matchesCallGrammar t"
  shows "includesStr t [LBRACE, RBRACE] \<or> includesStr t (ESCAPE @ [RBRACE])"
proof -
  from assms obtain pre post nm kvs where t: "t = pre @ spec_encodeCall nm kvs @ post"
    unfolding spec_matchesCallGrammar_def by blast
  show ?thesis
  proof (cases kvs)
    case Nil
    with t have "t = (pre @ START_CALL @ js ''call:'' @ nm) @ [LBRACE, RBRACE] @ (END_CALL @ post)"
      by (simp add: spec_encodeCall_def)
    then show ?thesis unfolding includesStr_iff by blast
  next
    case (Cons kv kvs')
    then have "map spec_encodeParam kvs \<noteq> []" by simp
    from joinStr_last [OF this, of COMMA] obtain x where
      "joinStr COMMA (map spec_encodeParam kvs) = x @ last (map spec_encodeParam kvs)" by blast
    moreover have "last (map spec_encodeParam kvs) = spec_encodeParam (last kvs)"
      using Cons by (simp add: last_map)
    ultimately have "joinStr COMMA (map spec_encodeParam kvs)
        = (x @ fst (last kvs) @ [COLON] @ ESCAPE @ snd (last kvs)) @ ESCAPE"
      by (simp add: spec_encodeParam_def)
    with t have "t = (pre @ START_CALL @ js ''call:'' @ nm @ [LBRACE] @ x @ fst (last kvs) @ [COLON] @ ESCAPE @ snd (last kvs))
                     @ (ESCAPE @ [RBRACE]) @ (END_CALL @ post)"
      by (simp add: spec_encodeCall_def)
    then show ?thesis unfolding includesStr_iff by blast
  qed
qed

lemma parsePair_eq:
  "parsePair m pair =
     (if COLON \<in> set pair \<and> segmentKey pair \<noteq> [] \<and> segmentKey pair \<noteq> PROTO
      then m(segmentKey pair \<mapsto> segmentValue pair) else m)"
proof -
  let ?n = "length (takeWhile (\<lambda>c. c \<noteq> COLON) pair)"
  have t: "take ?n pair = takeWhile (\<lambda>c. c \<noteq> COLON) pair"
    by (rule takeWhile_eq_take [symmetric])
  have "drop ?n pair = dropWhile (\<lambda>c. c \<noteq> COLON) pair"
    by (rule dropWhile_eq_drop [symmetric])
  then have d: "drop (?n + 1) pair = tl (dropWhile (\<lambda>c. c \<noteq> COLON) pair)"
    by (metis Suc_eq_plus1 tl_drop drop_Suc)
  show ?thesis
    unfolding parsePair_def indexOf_def segmentKey_def segmentValue_def assignProperty_def
    by (simp only: t d Let_def option.case split: if_splits) simp
qed





lemma foldl_parsePair_assignments:
  "foldl parsePair m segs = m ++ map_of (rev (assignments segs))"
proof (induction segs arbitrary: m)
  case Nil
  then show ?case by (simp add: assignments_def)
next
  case (Cons x xs)
  have "foldl parsePair m (x # xs) = parsePair m x ++ map_of (rev (assignments xs))"
    using Cons.IH by simp
  also have "\<dots> = m ++ map_of (rev (assignments (x # xs)))"
    by (simp add: parsePair_eq assignments_def)
  finally show ?case .
qed

lemma parseParams_assignments:
  "parseParams body = map_of (rev (assignments (splitStr COMMA body)))"
proof (cases "body = []")
  case True
  then show ?thesis by (simp add: parseParams_def assignments_def)
next
  case False
  then show ?thesis by (simp add: parseParams_def foldl_parsePair_assignments)
qed

lemma toolCallRegex_match_at: "toolCallRegex_at t = Some m \<Longrightarrow> toolCallRegex_match t = Some m"
  by (cases t) auto

lemma js_Cons_neq_Nil [simp]: "js (c # s) \<noteq> []"
  by (simp add: js_def)

text \<open>
  Claim C3 as stated fails. This response has the start marker, and no substring of it
  matches the call grammar of the specification, whose parameters are wrapped in escape
  markers; yet it is decoded as a call and dispatched, and the text returned is empty.
\<close>

theorem unescaped_params_decoded_counterexample:
  "hasToolCall (js ''<start_function_call>call:change_theme{theme:dark}<end_function_call>'')
   \<and> \<not> spec_matchesCallGrammar (js ''<start_function_call>call:change_theme{theme:dark}<end_function_call>'')
   \<and> parseToolCall (js ''<start_function_call>call:change_theme{theme:dark}<end_function_call>'')
       = Some \<lparr>name = js ''change_theme'', parameters = [js ''theme'' \<mapsto> js ''dark'']\<rparr>
   \<and> processResponse recording (js ''<start_function_call>call:change_theme{theme:dark}<end_function_call>'') []
       = Inr (\<lparr>toolCall = Some \<lparr>name = js ''change_theme'', parameters = [js ''theme'' \<mapsto> js ''dark'']\<rparr>,
                result = Some \<lparr>success = True, message = js ''Theme changed to dark'',
                                action = Some (js ''change_theme(dark)'')\<rparr>,
                textResponse = []\<rparr>,
              [ThemeChange (js ''dark'')])"
proof -
  let ?x = "js ''<start_function_call>call:change_theme{theme:dark}<end_function_call>''"
  have a: "hasToolCall ?x" by code_simp
  have "\<not> includesStr ?x [LBRACE, RBRACE]" "\<not> includesStr ?x (ESCAPE @ [RBRACE])"
    by code_simp+
  then have b: "\<not> spec_matchesCallGrammar ?x" using spec_grammar_necessary by blast
  have m: "toolCallRegex_match ?x = Some (js ''change_theme'', js ''theme:dark'')" by code_simp
  have "rev (assignments (splitStr COMMA (js ''theme:dark''))) = [(js ''theme'', js ''dark'')]"
    by code_simp
  then have "parseParams (js ''theme:dark'') = [js ''theme'' \<mapsto> js ''dark'']"
    by (simp add: parseParams_assignments)
  with m have c: "parseToolCall ?x = Some \<lparr>name = js ''change_theme'', parameters = [js ''theme'' \<mapsto> js ''dark'']\<rparr>"
    by (simp add: parseToolCall_def)
  have t: "extractNonToolText ?x = []" by code_simp
  have e: "executeToolCall recording \<lparr>name = js ''change_theme'', parameters = [js ''theme'' \<mapsto> js ''dark'']\<rparr> []
     = Inr (\<lparr>success = True, message = js ''Theme changed to dark'',
                                action = Some (js ''change_theme(dark)'')\<rparr>, [ThemeChange (js ''dark'')])"
    by (simp add: executeToolCall_def recording_def js_def)
  have d: "processResponse recording ?x []
       = Inr (\<lparr>toolCall = Some \<lparr>name = js ''change_theme'', parameters = [js ''theme'' \<mapsto> js ''dark'']\<rparr>,
                result = Some \<lparr>success = True, message = js ''Theme changed to dark'',
                                action = Some (js ''change_theme(dark)'')\<rparr>,
                textResponse = []\<rparr>,
              [ThemeChange (js ''dark'')])"
    by (simp add: processResponse_def Let_def c t e)
  from a b c d show ?thesis by blast
qed




lemma replaceAllLit_Nil [simp]: "replaceAllLit p [] = []"
  by (simp add: replaceAllLit.simps)

lemma replaceAllLit_skip:
  "stripPrefix p (c # cs) = None \<Longrightarrow> replaceAllLit p (c # cs) = c # replaceAllLit p cs"
  by (subst replaceAllLit.simps) simp

lemma replaceAllLit_hit:
  "p \<noteq> [] \<Longrightarrow> replaceAllLit p (p @ r) = replaceAllLit p r"
proof -
  assume p: "p \<noteq> []"
  then obtain c cs where c: "p @ r = c # cs" by (cases p) auto
  have "stripPrefix p (p @ r) \<noteq> None" by simp
  with p c have "replaceAllLit p (p @ r) = replaceAllLit p (drop (length p) (p @ r))"
    by (subst replaceAllLit.simps) simp
  then show ?thesis by simp
qed

lemma replaceAllLit_no_occurrence: "\<not> includesStr s p \<Longrightarrow> replaceAllLit p s = s"
proof (induction s)
  case Nil
  then show ?case by simp
next
  case (Cons c cs)
  then have "stripPrefix p (c # cs) = None" "\<not> includesStr cs p" by auto
  with Cons.IH show ?case by (simp add: replaceAllLit_skip)
qed

lemma ESCAPE_length: "length ESCAPE = 8"
  by (simp add: ESCAPE_def js_def)

lemma ESCAPE_no_border: "0 < n \<Longrightarrow> n < 8 \<Longrightarrow> ESCAPE ! n \<noteq> ESCAPE ! 0"
proof -
  assume "0 < n" "n < 8"
  then consider "n = 1" | "n = 2" | "n = 3" | "n = 4" | "n = 5" | "n = 6" | "n = 7" by linarith
  then show ?thesis by cases (simp_all add: ESCAPE_def js_def)
qed

lemma ESCAPE_not_prefix:
  assumes "\<not> includesStr (c # v) ESCAPE"
  shows "stripPrefix ESCAPE (c # v @ ESCAPE) = None"
proof (rule ccontr)
  assume "stripPrefix ESCAPE (c # v @ ESCAPE) \<noteq> None"
  then obtain r where "(c # v) @ ESCAPE = ESCAPE @ r" by (auto simp: stripPrefix_Some_iff)
  define u where "u = c # v"
  define n where "n = length u"
  have e: "u @ ESCAPE = ESCAPE @ r" using \<open>(c # v) @ ESCAPE = ESCAPE @ r\<close> by (simp add: u_def)
  have pos: "0 < n" by (simp add: n_def u_def)
  show False
  proof (cases "n < 8")
    case True
    have "(u @ ESCAPE) ! n = ESCAPE ! 0" by (simp add: n_def nth_append)
    moreover have "(ESCAPE @ r) ! n = ESCAPE ! n" using True by (simp add: nth_append ESCAPE_length)
    ultimately have "ESCAPE ! n = ESCAPE ! 0" using e by metis
    with ESCAPE_no_border [OF pos True] show False by simp
  next
    case False
    then have "length ESCAPE \<le> length u" by (simp add: ESCAPE_length n_def)
    with e obtain r' where "u = ESCAPE @ r'"
      by (metis append_eq_append_conv_if append_take_drop_id)
    then have "c # v = [] @ ESCAPE @ r'" by (simp add: u_def)
    then have "includesStr (c # v) ESCAPE" unfolding includesStr_iff by blast
    with assms show False by simp
  qed
qed

lemma replaceAllLit_ESCAPE_end:
  "\<not> includesStr v ESCAPE \<Longrightarrow> replaceAllLit ESCAPE (v @ ESCAPE) = v"
proof (induction v)
  case Nil
  have "ESCAPE \<noteq> []" by (simp add: ESCAPE_def js_def)
  from replaceAllLit_hit [OF this, of "[]"] show ?case by simp
next
  case (Cons c v)
  then have "\<not> includesStr v ESCAPE" by simp
  with Cons.IH have "replaceAllLit ESCAPE (v @ ESCAPE) = v" by simp
  moreover have "stripPrefix ESCAPE (c # v @ ESCAPE) = None" using Cons.prems by (rule ESCAPE_not_prefix)
  ultimately show ?case by (simp add: replaceAllLit_skip)
qed

lemma removeEscapeTags_wrapped:
  assumes "\<not> includesStr v ESCAPE" "\<not> includesStr v ESCAPE_CLOSE"
  shows "removeEscapeTags (ESCAPE @ v @ ESCAPE) = v"
proof -
  have "ESCAPE \<noteq> []" by (simp add: ESCAPE_def js_def)
  then have "replaceAllLit ESCAPE (ESCAPE @ v @ ESCAPE) = replaceAllLit ESCAPE (v @ ESCAPE)"
    by (rule replaceAllLit_hit)
  also have "\<dots> = v" using assms(1) by (rule replaceAllLit_ESCAPE_end)
  finally show ?thesis using assms(2) by (simp add: removeEscapeTags_def replaceAllLit_no_occurrence)
qed

lemma trim_id: "s \<noteq> [] \<Longrightarrow> \<not> isWhiteSpace (hd s) \<Longrightarrow> \<not> isWhiteSpace (last s) \<Longrightarrow> trim s = s"
proof -
  assume a: "s \<noteq> []" "\<not> isWhiteSpace (hd s)" "\<not> isWhiteSpace (last s)"
  then have "dropWhile isWhiteSpace s = s" by (simp add: dropWhile_eq_self_iff)
  moreover have "dropWhile isWhiteSpace (rev s) = rev s"
    using a by (simp add: dropWhile_eq_self_iff hd_rev)
  ultimately show ?thesis by (simp add: trim_def)
qed

lemma set_trim: "set (trim s) \<subseteq> set s"
  unfolding trim_def by (auto dest!: set_dropWhileD)

lemma trim_wrapped: "trim (ESCAPE @ v @ ESCAPE) = ESCAPE @ v @ ESCAPE"
proof (rule trim_id)
  show "ESCAPE @ v @ ESCAPE \<noteq> []" by (simp add: ESCAPE_def js_def)
  show "\<not> isWhiteSpace (hd (ESCAPE @ v @ ESCAPE))"
    by (simp add: ESCAPE_def js_def isWhiteSpace_def isLineTerminator_def)
  have "last (ESCAPE @ v @ ESCAPE) = last ESCAPE" by (simp add: ESCAPE_def js_def)
  then show "\<not> isWhiteSpace (last (ESCAPE @ v @ ESCAPE))"
    by (simp add: ESCAPE_def js_def isWhiteSpace_def isLineTerminator_def)
qed

lemma segment_of_param:
  assumes "COLON \<notin> set k"
  shows "COLON \<in> set (spec_encodeParam (k, v))"
    and "segmentKey (spec_encodeParam (k, v)) = trim k"
    and "\<not> includesStr v ESCAPE \<Longrightarrow> \<not> includesStr v ESCAPE_CLOSE \<Longrightarrow>
         segmentValue (spec_encodeParam (k, v)) = v"
proof -
  have k: "\<forall>c\<in>set k. c \<noteq> COLON" using assms by auto
  show "COLON \<in> set (spec_encodeParam (k, v))" by (simp add: spec_encodeParam_def)
  have "takeWhile (\<lambda>c. c \<noteq> COLON) (k @ [COLON] @ ESCAPE @ v @ ESCAPE) = k"
    using k by (simp add: takeWhile_append2)
  then show "segmentKey (spec_encodeParam (k, v)) = trim k"
    by (simp add: segmentKey_def spec_encodeParam_def)
  have "dropWhile (\<lambda>c. c \<noteq> COLON) (k @ [COLON] @ ESCAPE @ v @ ESCAPE) = COLON # ESCAPE @ v @ ESCAPE"
    using k by (simp add: dropWhile_append2)
  then have "segmentValue (spec_encodeParam (k, v)) = removeEscapeTags (trim (ESCAPE @ v @ ESCAPE))"
    by (simp add: segmentValue_def spec_encodeParam_def)
  then show "\<not> includesStr v ESCAPE \<Longrightarrow> \<not> includesStr v ESCAPE_CLOSE \<Longrightarrow>
         segmentValue (spec_encodeParam (k, v)) = v"
    by (simp add: trim_wrapped removeEscapeTags_wrapped)
qed

lemma splitStr_no_sep: "sep \<notin> set x \<Longrightarrow> splitStr sep x = [x]"
  by (induction x) auto

lemma splitStr_append_sep: "sep \<notin> set x \<Longrightarrow> splitStr sep (x @ sep # r) = x # splitStr sep r"
  by (induction x) auto

lemma splitStr_joinStr:
  "segs \<noteq> [] \<Longrightarrow> \<forall>seg\<in>set segs. sep \<notin> set seg \<Longrightarrow> splitStr sep (joinStr sep segs) = segs"
proof (induction sep segs rule: joinStr.induct)
  case (1 sep)
  then show ?case by simp
next
  case (2 sep x)
  then show ?case by (simp add: splitStr_no_sep)
next
  case (3 sep x y ys)
  then show ?case by (simp add: splitStr_append_sep)
qed

lemma set_joinStr: "c \<in> set (joinStr sep segs) \<Longrightarrow> c = sep \<or> (\<exists>seg\<in>set segs. c \<in> set seg)"
  by (induction sep segs rule: joinStr.induct) auto

lemma map_of_rev_distinct: "distinct (map fst xs) \<Longrightarrow> map_of (rev xs) = map_of xs"
proof -
  assume d: "distinct (map fst xs)"
  then have "distinct (map fst (rev xs))" by (simp add: rev_map [symmetric])
  with d show ?thesis by (simp add: map_of_inject_set)
qed

lemma ESCAPE_chars: "COLON \<notin> set ESCAPE" "COMMA \<notin> set ESCAPE" "RBRACE \<notin> set ESCAPE"
  by (simp_all add: ESCAPE_def js_def COLON_def COMMA_def RBRACE_def)

lemma chars_distinct: "COLON \<noteq> COMMA" "COLON \<noteq> RBRACE" "COMMA \<noteq> RBRACE" "RBRACE \<noteq> COMMA"
  "COMMA \<noteq> COLON" "RBRACE \<noteq> COLON"
  by (simp_all add: COLON_def COMMA_def RBRACE_def)

lemma decode_encoded:
  assumes nm: "nm \<noteq> []" "list_all isWordChar nm"
    and keys: "distinct (map (\<lambda>kv. trim (fst kv)) kvs)"
    and kv: "\<forall>kv\<in>set kvs. trim (fst kv) \<noteq> [] \<and> trim (fst kv) \<noteq> PROTO
                \<and> COLON \<notin> set (fst kv) \<and> COMMA \<notin> set (fst kv)
                \<and> RBRACE \<notin> set (fst kv) \<and> COMMA \<notin> set (snd kv) \<and> RBRACE \<notin> set (snd kv)
                \<and> \<not> includesStr (snd kv) ESCAPE \<and> \<not> includesStr (snd kv) ESCAPE_CLOSE"
  shows "parseToolCall (spec_encodeCall nm kvs)
         = Some \<lparr>name = nm, parameters = map_of (map (\<lambda>kv. (trim (fst kv), snd kv)) kvs)\<rparr>"
proof -
  let ?segs = "map spec_encodeParam kvs"
  let ?body = "joinStr COMMA ?segs"
  have seg_chars: "COMMA \<notin> set seg \<and> RBRACE \<notin> set seg" if "seg \<in> set ?segs" for seg
  proof -
    from that obtain p where "p \<in> set kvs" "seg = spec_encodeParam p" by auto
    with kv show ?thesis by (auto simp: spec_encodeParam_def ESCAPE_chars chars_distinct)
  qed
  have "RBRACE \<notin> set ?body"
  proof
    assume "RBRACE \<in> set ?body"
    from set_joinStr [OF this] seg_chars show False by (auto simp: chars_distinct)
  qed
  from toolCallRegex_at_complete [OF nm this, of "[]"]
  have "toolCallRegex_at (spec_encodeCall nm kvs) = Some (nm, ?body)"
    by (simp add: spec_encodeCall_def)
  then have m: "toolCallRegex_match (spec_encodeCall nm kvs) = Some (nm, ?body)"
    by (rule toolCallRegex_match_at)
  have a: "assignments ?segs = map (\<lambda>kv. (trim (fst kv), snd kv)) kvs"
  proof -
    have "filter (\<lambda>seg. COLON \<in> set seg \<and> segmentKey seg \<noteq> [] \<and> segmentKey seg \<noteq> PROTO) ?segs = ?segs"
    proof (rule filter_True)
      show "\<forall>seg\<in>set ?segs. COLON \<in> set seg \<and> segmentKey seg \<noteq> [] \<and> segmentKey seg \<noteq> PROTO"
      proof
        fix seg assume "seg \<in> set ?segs"
        then obtain p where p: "p \<in> set kvs" "seg = spec_encodeParam (fst p, snd p)" by auto
        with kv have "COLON \<notin> set (fst p)" "trim (fst p) \<noteq> []" "trim (fst p) \<noteq> PROTO" by auto
        with segment_of_param(1,2) [of "fst p" "snd p"] p(2)
        show "COLON \<in> set seg \<and> segmentKey seg \<noteq> [] \<and> segmentKey seg \<noteq> PROTO" by simp
      qed
    qed
    moreover have "map (\<lambda>seg. (segmentKey seg, segmentValue seg)) ?segs
                   = map (\<lambda>kv. (trim (fst kv), snd kv)) kvs"
    proof -
      have "(segmentKey (spec_encodeParam p), segmentValue (spec_encodeParam p)) = (trim (fst p), snd p)"
        if "p \<in> set kvs" for p
      proof -
        from that kv have "COLON \<notin> set (fst p)" "\<not> includesStr (snd p) ESCAPE"
          "\<not> includesStr (snd p) ESCAPE_CLOSE" by auto
        with segment_of_param(2,3) [of "fst p" "snd p"] show ?thesis by simp
      qed
      then show ?thesis by simp
    qed
    ultimately show ?thesis by (simp add: assignments_def)
  qed
  have "parseParams ?body = map_of (map (\<lambda>kv. (trim (fst kv), snd kv)) kvs)"
  proof (cases "kvs = []")
    case True
    then show ?thesis by (simp add: parseParams_def)
  next
    case False
    then have "?segs \<noteq> []" by simp
    moreover have "\<forall>seg\<in>set ?segs. COMMA \<notin> set seg" using seg_chars by blast
    ultimately have "splitStr COMMA ?body = ?segs" by (rule splitStr_joinStr)
    then have "parseParams ?body = map_of (rev (map (\<lambda>kv. (trim (fst kv), snd kv)) kvs))"
      by (simp add: parseParams_assignments a)
    moreover have "distinct (map fst (map (\<lambda>kv. (trim (fst kv), snd kv)) kvs))"
      using keys by (simp add: comp_def)
    ultimately show ?thesis by (simp add: map_of_rev_distinct)
  qed
  with m show ?thesis by (simp add: parseToolCall_def)
qed

text \<open>
  Claim C2, as amended. Take a name of one or more word characters and a list of
  key/value pairs in which the keys, trimmed, are distinct, not empty and not
  \<^verbatim>\<open>__proto__\<close>, no key has a colon, a comma or a closing brace, and no value has a comma,
  a closing brace, the escape marker \<^verbatim>\<open><escape>\<close> or its closing spelling \<^verbatim>\<open></escape>\<close>. Decoding the wire format
  of that call gives the name and exactly the pairs, with the keys trimmed. Writing the
  decoded call in the wire format again, with its parameters in any order, gives a span
  that decodes to the same call.
\<close>

theorem decode_encode_round_trip:
  assumes nm: "nm \<noteq> []" "list_all isWordChar nm"
    and keys: "distinct (map (\<lambda>kv. trim (fst kv)) kvs)"
    and kv: "\<forall>kv\<in>set kvs. trim (fst kv) \<noteq> [] \<and> trim (fst kv) \<noteq> PROTO
                \<and> COLON \<notin> set (fst kv) \<and> COMMA \<notin> set (fst kv)
                \<and> RBRACE \<notin> set (fst kv) \<and> COMMA \<notin> set (snd kv) \<and> RBRACE \<notin> set (snd kv)
                \<and> \<not> includesStr (snd kv) ESCAPE \<and> \<not> includesStr (snd kv) ESCAPE_CLOSE"
  shows "parseToolCall (spec_encodeCall nm kvs)
           = Some \<lparr>name = nm, parameters = map_of (map (\<lambda>kv. (trim (fst kv), snd kv)) kvs)\<rparr>
         \<and> (\<forall>kvs'. distinct (map fst kvs')
                \<and> map_of kvs' = map_of (map (\<lambda>kv. (trim (fst kv), snd kv)) kvs)
              \<longrightarrow> parseToolCall (spec_encodeCall nm kvs') = parseToolCall (spec_encodeCall nm kvs))"
proof (intro conjI allI impI)
  show d: "parseToolCall (spec_encodeCall nm kvs)
           = Some \<lparr>name = nm, parameters = map_of (map (\<lambda>kv. (trim (fst kv), snd kv)) kvs)\<rparr>"
    using assms by (rule decode_encoded)
  fix kvs'
  assume a: "distinct (map fst kvs') \<and> map_of kvs' = map_of (map (\<lambda>kv. (trim (fst kv), snd kv)) kvs)"
  have d2: "distinct (map fst (map (\<lambda>kv. (trim (fst kv), snd kv)) kvs))" using keys by (simp add: comp_def)
  from a have d1: "distinct (map fst kvs')" by simp
  have s: "set kvs' = set (map (\<lambda>kv. (trim (fst kv), snd kv)) kvs)"
    by (rule iffD1 [OF map_of_inject_set [OF d1 d2]]) (rule conjunct2 [OF a])
  have p: "trim (fst q) = fst q \<and> fst q \<noteq> [] \<and> fst q \<noteq> PROTO
                \<and> COLON \<notin> set (fst q) \<and> COMMA \<notin> set (fst q)
                \<and> RBRACE \<notin> set (fst q) \<and> COMMA \<notin> set (snd q) \<and> RBRACE \<notin> set (snd q)
                \<and> \<not> includesStr (snd q) ESCAPE \<and> \<not> includesStr (snd q) ESCAPE_CLOSE"
    if "q \<in> set kvs'" for q
  proof -
    from that s obtain p where p: "p \<in> set kvs" "q = (trim (fst p), snd p)" by auto
    with kv set_trim [of "fst p"] show ?thesis by (auto simp: trim_idem)
  qed
  then have t: "map (\<lambda>kv. trim (fst kv)) kvs' = map fst kvs'"
    and u: "map (\<lambda>kv. (trim (fst kv), snd kv)) kvs' = kvs'" by (simp_all add: map_idI)
  have "parseToolCall (spec_encodeCall nm kvs')
        = Some \<lparr>name = nm, parameters = map_of (map (\<lambda>kv. (trim (fst kv), snd kv)) kvs')\<rparr>"
  proof (rule decode_encoded [OF nm])
    show "distinct (map (\<lambda>kv. trim (fst kv)) kvs')" unfolding t using a by blast
    show "\<forall>kv\<in>set kvs'. trim (fst kv) \<noteq> [] \<and> trim (fst kv) \<noteq> PROTO
                \<and> COLON \<notin> set (fst kv) \<and> COMMA \<notin> set (fst kv)
                \<and> RBRACE \<notin> set (fst kv) \<and> COMMA \<notin> set (snd kv) \<and> RBRACE \<notin> set (snd kv)
                \<and> \<not> includesStr (snd kv) ESCAPE \<and> \<not> includesStr (snd kv) ESCAPE_CLOSE"
      using p by simp
  qed
  with a d u show "parseToolCall (spec_encodeCall nm kvs') = parseToolCall (spec_encodeCall nm kvs)"
    by simp
qed

text \<open>
  Claim C2 as stated fails, at a key and at a value. The key \<^verbatim>\<open>__proto__\<close> is not empty
  and is alone, and the decoder stores nothing for it. The value \<^verbatim>\<open></escape>\<close> has no
  comma, no closing brace and no \<^verbatim>\<open><escape>\<close> in it, and the decoder strips it to the empty
  string.
\<close>

theorem proto_key_round_trip_counterexample:
  "spec_wellFormed (js ''f'') [(js ''__proto__'', js ''x'')]
   \<and> parseToolCall (spec_encodeCall (js ''f'') [(js ''__proto__'', js ''x'')])
       = Some \<lparr>name = js ''f'', parameters = Map.empty\<rparr>
   \<and> parseToolCall (spec_encodeCall (js ''f'') [(js ''__proto__'', js ''x'')])
       \<noteq> Some \<lparr>name = js ''f'', parameters = map_of [(js ''__proto__'', js ''x'')]\<rparr>
   \<and> spec_wellFormed (js ''f'') [(js ''k'', js ''</escape>'')]
   \<and> parseToolCall (spec_encodeCall (js ''f'') [(js ''k'', js ''</escape>'')])
       = Some \<lparr>name = js ''f'', parameters = [js ''k'' \<mapsto> []]\<rparr>
   \<and> parseToolCall (spec_encodeCall (js ''f'') [(js ''k'', js ''</escape>'')])
       \<noteq> Some \<lparr>name = js ''f'', parameters = map_of [(js ''k'', js ''</escape>'')]\<rparr>"
proof -
  have w0: "spec_wellFormed (js ''f'') [(js ''__proto__'', js ''x'')]" by code_simp
  have m0: "toolCallRegex_match (spec_encodeCall (js ''f'') [(js ''__proto__'', js ''x'')])
           = Some (js ''f'', js ''__proto__:<escape>x<escape>'')" by code_simp
  have "rev (assignments (splitStr COMMA (js ''__proto__:<escape>x<escape>''))) = []"
    by code_simp
  then have "parseParams (js ''__proto__:<escape>x<escape>'') = Map.empty"
    by (simp add: parseParams_assignments)
  with m0 have p0: "parseToolCall (spec_encodeCall (js ''f'') [(js ''__proto__'', js ''x'')])
       = Some \<lparr>name = js ''f'', parameters = Map.empty\<rparr>"
    by (simp add: parseToolCall_def)
  have n0: "Map.empty \<noteq> map_of [(js ''__proto__'', js ''x'')]"
  proof
    assume "Map.empty = map_of [(js ''__proto__'', js ''x'')]"
    then have "Map.empty (js ''__proto__'') = map_of [(js ''__proto__'', js ''x'')] (js ''__proto__'')"
      by simp
    then show False by simp
  qed
  have w: "spec_wellFormed (js ''f'') [(js ''k'', js ''</escape>'')]" by code_simp
  have m: "toolCallRegex_match (spec_encodeCall (js ''f'') [(js ''k'', js ''</escape>'')])
           = Some (js ''f'', js ''k:<escape></escape><escape>'')" by code_simp
  have "rev (assignments (splitStr COMMA (js ''k:<escape></escape><escape>''))) = [(js ''k'', [])]"
    by code_simp
  then have "parseParams (js ''k:<escape></escape><escape>'') = [js ''k'' \<mapsto> []]"
    by (simp add: parseParams_assignments)
  with m have p: "parseToolCall (spec_encodeCall (js ''f'') [(js ''k'', js ''</escape>'')])
       = Some \<lparr>name = js ''f'', parameters = [js ''k'' \<mapsto> []]\<rparr>"
    by (simp add: parseToolCall_def)
  have n: "[js ''k'' \<mapsto> []] \<noteq> map_of [(js ''k'', js ''</escape>'')]"
  proof
    assume "[js ''k'' \<mapsto> []] = map_of [(js ''k'', js ''</escape>'')]"
    then have "[js ''k'' \<mapsto> []] (js ''k'') = map_of [(js ''k'', js ''</escape>'')] (js ''k'')" by simp
    then show False by (simp add: js_def)
  qed
  from w0 p0 n0 w p n show ?thesis by simp
qed

text \<open>Claim C2: the amended statement on the notification example of the prompt.\<close>

theorem decode_encode_round_trip_witness:
  "js ''show_notification'' \<noteq> [] \<and> list_all isWordChar (js ''show_notification'')
   \<and> distinct (map (\<lambda>kv. trim (fst kv)) [(js ''message'', js ''Hello!''), (js ''type'', js ''info'')])
   \<and> spec_encodeCall (js ''show_notification'') [(js ''message'', js ''Hello!''), (js ''type'', js ''info'')]
       = js ''<start_function_call>call:show_notification{message:<escape>Hello!<escape>,type:<escape>info<escape>}<end_function_call>''
   \<and> parseToolCall (js ''<start_function_call>call:show_notification{message:<escape>Hello!<escape>,type:<escape>info<escape>}<end_function_call>'')
       = Some \<lparr>name = js ''show_notification'',
                parameters = [js ''message'' \<mapsto> js ''Hello!'', js ''type'' \<mapsto> js ''info'']\<rparr>
   \<and> parseToolCall (spec_encodeCall (js ''show_notification'') [(js ''type'', js ''info''), (js ''message'', js ''Hello!'')])
       = parseToolCall (js ''<start_function_call>call:show_notification{message:<escape>Hello!<escape>,type:<escape>info<escape>}<end_function_call>'')"
proof -
  let ?kvs = "[(js ''message'', js ''Hello!''), (js ''type'', js ''info'')]"
  let ?kvs' = "[(js ''type'', js ''info''), (js ''message'', js ''Hello!'')]"
  have h1: "js ''show_notification'' \<noteq> []" by (simp add: js_def)
  have h2: "list_all isWordChar (js ''show_notification'')" by code_simp
  have h3: "distinct (map (\<lambda>kv. trim (fst kv)) ?kvs)" by code_simp
  have "list_all (\<lambda>kv. trim (fst kv) \<noteq> [] \<and> trim (fst kv) \<noteq> PROTO
                \<and> COLON \<notin> set (fst kv) \<and> COMMA \<notin> set (fst kv)
                \<and> RBRACE \<notin> set (fst kv) \<and> COMMA \<notin> set (snd kv) \<and> RBRACE \<notin> set (snd kv)
                \<and> \<not> includesStr (snd kv) ESCAPE \<and> \<not> includesStr (snd kv) ESCAPE_CLOSE) ?kvs"
    by code_simp
  then have h4: "\<forall>kv\<in>set ?kvs. trim (fst kv) \<noteq> [] \<and> trim (fst kv) \<noteq> PROTO
                \<and> COLON \<notin> set (fst kv) \<and> COMMA \<notin> set (fst kv)
                \<and> RBRACE \<notin> set (fst kv) \<and> COMMA \<notin> set (snd kv) \<and> RBRACE \<notin> set (snd kv)
                \<and> \<not> includesStr (snd kv) ESCAPE \<and> \<not> includesStr (snd kv) ESCAPE_CLOSE"
    by (simp only: list_all_iff)
  have w: "spec_encodeCall (js ''show_notification'') ?kvs
       = js ''<start_function_call>call:show_notification{message:<escape>Hello!<escape>,type:<escape>info<escape>}<end_function_call>''"
    by code_simp
  have t: "map (\<lambda>kv. (trim (fst kv), snd kv)) ?kvs = ?kvs" by code_simp
  have o: "distinct (map fst ?kvs')" by code_simp
  have ne: "js ''type'' \<noteq> js ''message''" by (simp add: js_def)
  have p: "map_of ?kvs' = map_of ?kvs" using ne by (simp add: fun_upd_twist)
  from decode_encode_round_trip [OF h1 h2 h3 h4]
  have "parseToolCall (spec_encodeCall (js ''show_notification'') ?kvs)
          = Some \<lparr>name = js ''show_notification'', parameters = map_of ?kvs\<rparr>"
    and "parseToolCall (spec_encodeCall (js ''show_notification'') ?kvs')
          = parseToolCall (spec_encodeCall (js ''show_notification'') ?kvs)"
    using o p unfolding t by blast+
  then show ?thesis using h1 h2 h3 ne unfolding w by (simp add: fun_upd_twist)
qed

text \<open>
  Claim C10 on the code. Two well-formed calls on one line are both removed. When the
  second call has a line feed inside its value, \<open>parseToolCall\<close> accepts that call, but
  \<open>extractNonToolText\<close> leaves its whole span in the text it returns.
\<close>

theorem extractNonToolText_keeps_span_with_line_feed:
  "extractNonToolText
     (js ''ok <start_function_call>call:change_theme{theme:<escape>dark<escape>}<end_function_call>''
      @ js ''<start_function_call>call:show_notification{message:<escape>ab<escape>}<end_function_call>'')
   = js ''ok''
   \<and> extractNonToolText
     (js ''ok <start_function_call>call:change_theme{theme:<escape>dark<escape>}<end_function_call>''
      @ js ''<start_function_call>call:show_notification{message:<escape>a'' @ [0x0A] @ js ''b<escape>}<end_function_call>'')
   = js ''ok <start_function_call>call:show_notification{message:<escape>a'' @ [0x0A] @ js ''b<escape>}<end_function_call>''
   \<and> parseToolCall (js ''<start_function_call>call:show_notification{message:<escape>a'' @ [0x0A] @ js ''b<escape>}<end_function_call>'')
   = Some \<lparr>name = js ''show_notification'', parameters = [js ''message'' \<mapsto> js ''a'' @ [0x0A] @ js ''b'']\<rparr>"
proof -
  have z: "extractNonToolText
     (js ''ok <start_function_call>call:change_theme{theme:<escape>dark<escape>}<end_function_call>''
      @ js ''<start_function_call>call:show_notification{message:<escape>ab<escape>}<end_function_call>'')
   = js ''ok''"
    by code_simp
  have a: "extractNonToolText
     (js ''ok <start_function_call>call:change_theme{theme:<escape>dark<escape>}<end_function_call>''
      @ js ''<start_function_call>call:show_notification{message:<escape>a'' @ [0x0A] @ js ''b<escape>}<end_function_call>'')
   = js ''ok <start_function_call>call:show_notification{message:<escape>a'' @ [0x0A] @ js ''b<escape>}<end_function_call>''"
    by code_simp
  have m: "toolCallRegex_match (js ''<start_function_call>call:show_notification{message:<escape>a'' @ [0x0A] @ js ''b<escape>}<end_function_call>'')
    = Some (js ''show_notification'', js ''message:<escape>a'' @ [0x0A] @ js ''b<escape>'')"
    by code_simp
  have "rev (assignments (splitStr COMMA (js ''message:<escape>a'' @ [0x0A] @ js ''b<escape>'')))
     = [(js ''message'', js ''a'' @ [0x0A] @ js ''b'')]"
    by code_simp
  then have "parseParams (js ''message:<escape>a'' @ [0x0A] @ js ''b<escape>'') = [js ''message'' \<mapsto> js ''a'' @ [0x0A] @ js ''b'']"
    by (simp add: parseParams_assignments)
  with m have "parseToolCall (js ''<start_function_call>call:show_notification{message:<escape>a'' @ [0x0A] @ js ''b<escape>}<end_function_call>'')
   = Some \<lparr>name = js ''show_notification'', parameters = [js ''message'' \<mapsto> js ''a'' @ [0x0A] @ js ''b'']\<rparr>"
    by (simp add: parseToolCall_def)
  with a z show ?thesis by simp
qed

end
